theory Spec2Isabelle
  imports Main "HOL-Library.Multiset" "HOL-Library.Char_ord" "HOL-Library.List_Lexorder"
    "HOL-Library.Product_Lexorder"
begin

section \<open>gettercheck: a shallow embedding\<close>

text \<open>
  The development follows the Go sources of the repository:
  \<^item> \<^verbatim>\<open>gettercheck/errcheck.go\<close>: \<^verbatim>\<open>UnusedGetterError\<close>, \<^verbatim>\<open>Result\<close>, \<^verbatim>\<open>byName.Less\<close>,
    \<^verbatim>\<open>Result.Append\<close>, \<^verbatim>\<open>Result.Unique\<close>, \<^verbatim>\<open>Checker.shouldSkipFile\<close>, \<^verbatim>\<open>Checker.CheckPackage\<close>;
  \<^item> \<^verbatim>\<open>gettercheck/gettercheck_visitor.go\<close>: \<^verbatim>\<open>visitor.Visit\<close>, \<^verbatim>\<open>UnaryVisitor.Visit\<close>,
    \<^verbatim>\<open>visitor.addErrorAtPosition\<close>, \<^verbatim>\<open>readfile\<close>, \<^verbatim>\<open>FindMethod\<close>, \<^verbatim>\<open>contains\<close>;
  \<^item> the command's \<^verbatim>\<open>main.go\<close>: \<^verbatim>\<open>checkPaths\<close>.

  What the sources take from outside the repository (the Go standard library, \<^verbatim>\<open>go/types\<close>,
  \<^verbatim>\<open>go/token\<close>, \<^verbatim>\<open>astutil.Apply\<close>, the package loader) is either a parameter of the model or,
  where the traversal depends on its exact behaviour, written out from its documentation.
\<close>

subsection \<open>Positions, violations, results (errcheck.go)\<close>

text \<open>\<^verbatim>\<open>token.Position\<close>. Go's \<^verbatim>\<open>int\<close> is modelled by \<^typ>\<open>int\<close>: positions are only compared,
  and the one subtraction (\<^verbatim>\<open>pos.Line-1\<close>) cannot overflow for a line number.\<close>

record Position =
  Filename :: string
  Offset :: int
  Line :: int
  Column :: int

record UnusedGetterError =
  Pos :: Position
  GetterPos :: Position
  Line :: string
  FuncName :: string

record Result =
  UnusedGetterError :: "UnusedGetterError list"

text \<open>\<^verbatim>\<open>byName.Less\<close> on two elements of the slice. Go compares strings bytewise, which is
  the lexicographic order on \<^typ>\<open>string\<close> of the imported library theories.\<close>

definition byName_Less :: "UnusedGetterError \<Rightarrow> UnusedGetterError \<Rightarrow> bool" where
  "byName_Less ei ej =
     (let pi = Pos ei; pj = Pos ej in
      if Filename pi \<noteq> Filename pj then Filename pi < Filename pj
      else if Position.Line pi \<noteq> Position.Line pj then Position.Line pi < Position.Line pj
      else if Column pi \<noteq> Column pj then Column pi < Column pj
      else Line ei < Line ej)"

definition Append :: "Result \<Rightarrow> Result \<Rightarrow> Result" where
  "Append r other = \<lparr>UnusedGetterError = UnusedGetterError r @ UnusedGetterError other\<rparr>"

text \<open>
  The loop of \<^verbatim>\<open>Result.Unique\<close>. \<^verbatim>\<open>uniq := result[:0]\<close> shares the backing array of
  \<^verbatim>\<open>result\<close>, so every \<^verbatim>\<open>append(uniq, err)\<close> overwrites \<^verbatim>\<open>result[k]\<close>, where \<open>k\<close> is
  the current length of \<^verbatim>\<open>uniq\<close>, while the loop still reads \<^verbatim>\<open>result[i]\<close> and
  \<^verbatim>\<open>result[i-1]\<close>. The model keeps that one array: \<open>result\<close> is the array, \<open>k\<close> the
  length of \<^verbatim>\<open>uniq\<close>, \<open>i\<close> the loop index. (The capacity of \<^verbatim>\<open>uniq\<close> is the length of
  the array and \<open>k \<le> i\<close> throughout, so \<^verbatim>\<open>append\<close> never reallocates.)
\<close>

function compact_loop :: "'a list \<Rightarrow> nat \<Rightarrow> nat \<Rightarrow> 'a list" where
  "compact_loop result k i =
     (if i < length result then
        (let err = result ! i in
         if i = 0 \<or> err \<noteq> result ! (i - 1)
         then compact_loop (result[k := err]) (Suc k) (Suc i)
         else compact_loop result k (Suc i))
      else take k result)"
  by pat_completeness auto
termination
  by (relation "measure (\<lambda>(result, k, i). length result - i)") auto

declare compact_loop.simps [simp del]

text \<open>
  \<^verbatim>\<open>Result.Unique\<close>. \<^verbatim>\<open>sort.Sort\<close> belongs to the Go standard library and is a parameter:
  \<open>sort_Sort\<close> maps the slice before the call to the slice after it.
\<close>

definition Unique :: "(UnusedGetterError list \<Rightarrow> UnusedGetterError list) \<Rightarrow> Result \<Rightarrow> Result" where
  "Unique sort_Sort r =
     (let result = sort_Sort (UnusedGetterError r) in
      \<lparr>UnusedGetterError = compact_loop result 0 0\<rparr>)"

text \<open>The sort key that \<^const>\<open>byName_Less\<close> compares.\<close>

definition byName_key :: "UnusedGetterError \<Rightarrow> string \<times> int \<times> int \<times> string" where
  "byName_key e = (Filename (Pos e), Position.Line (Pos e), Column (Pos e), Line e)"

text \<open>
  What the documentation of \<^verbatim>\<open>sort.Sort\<close> promises: the slice afterwards is a rearrangement
  of the slice before, in ascending order of \<^verbatim>\<open>Less\<close>. The sort need not be stable.
\<close>

definition sorts_by_Less :: "(UnusedGetterError list \<Rightarrow> UnusedGetterError list) \<Rightarrow> bool" where
  "sorts_by_Less sort_Sort =
     (\<forall>xs. mset (sort_Sort xs) = mset xs \<and>
           sorted_wrt (\<lambda>a b. \<not> byName_Less b a) (sort_Sort xs))"


text \<open>Violations with the same sort key are the same violation.\<close>

definition key_fixes_record :: "UnusedGetterError list \<Rightarrow> bool" where
  "key_fixes_record xs = (\<forall>a \<in> set xs. \<forall>b \<in> set xs. byName_key a = byName_key b \<longrightarrow> a = b)"

text \<open>
  One sort that meets both descriptions is the insertion sort of Go's \<^verbatim>\<open>sort\<close> package,
  with which \<^verbatim>\<open>sort.Sort\<close> finishes a short slice:
  \<^verbatim>\<open>for i := a+1; i < b; i++ { for j := i; j > a && Less(j, j-1); j-- { Swap(j, j-1) } }\<close>.
  \<open>bubble x acc\<close> moves the new element \<open>x\<close> down past the elements it is less than;
  \<open>acc\<close> is the sorted part of the slice, last element first.
\<close>

primrec bubble :: "UnusedGetterError \<Rightarrow> UnusedGetterError list \<Rightarrow> UnusedGetterError list" where
  "bubble x [] = [x]"
| "bubble x (y # ys) = (if byName_Less x y then y # bubble x ys else x # y # ys)"

definition insertionSort :: "UnusedGetterError list \<Rightarrow> UnusedGetterError list" where
  "insertionSort xs = rev (foldl (\<lambda>acc x. bubble x acc) [] xs)"


subsection \<open>The type checker's answers (go/types, go/token)\<close>

text \<open>
  \<^verbatim>\<open>*types.Func\<close>, as far as the sources read it: \<^verbatim>\<open>Name()\<close>, \<^verbatim>\<open>Pos()\<close>, and the number
  of parameters of its signature (which \<^verbatim>\<open>FindMethod\<close> never looks at).
\<close>

datatype Func = Func (Func_Name: string) (Func_Pos: int) (Func_Params: nat)

text \<open>
  \<^verbatim>\<open>types.Type\<close>: a basic type with its name, a pointer, a struct, a named type with its
  printed name, its underlying type and its explicitly declared methods in declaration
  order (\<^verbatim>\<open>NumMethods\<close>, \<^verbatim>\<open>Method(i)\<close>), or any other type with its printed form.
\<close>

datatype gotype =
    Basic string
  | Pointer gotype
  | Struct string
  | Named string gotype "Func list"
  | OtherType string

text \<open>\<^verbatim>\<open>Type.String()\<close>.\<close>

fun Type_String :: "gotype \<Rightarrow> string" where
  "Type_String (Basic name) = name"
| "Type_String (Pointer elem) = CHR ''*'' # Type_String elem"
| "Type_String (Struct s) = s"
| "Type_String (Named name underlying methods) = name"
| "Type_String (OtherType s) = s"

text \<open>\<^verbatim>\<open>types.Object\<close>: a \<^verbatim>\<open>*types.Var\<close> (a struct field, a local or a package-level
  variable) or any other object; either has a declaration position.\<close>

datatype Object = Var (Object_Pos: int) | OtherObject (Object_Pos: int)

text \<open>\<^verbatim>\<open>FindMethod\<close> (gettercheck_visitor.go).\<close>

fun FindMethod :: "gotype \<Rightarrow> string \<Rightarrow> Func option" where
  "FindMethod (Pointer elem) methodName = FindMethod elem methodName"
| "FindMethod (Named name underlying methods) methodName =
     find (\<lambda>m. Func_Name m = methodName) methods"
| "FindMethod _ methodName = None"

text \<open>\<^verbatim>\<open>contains\<close> (gettercheck_visitor.go).\<close>

primrec contains :: "string list \<Rightarrow> string \<Rightarrow> bool" where
  "contains [] e = False"
| "contains (a # s) e = (if a = e then True else contains s e)"

text \<open>\<^verbatim>\<open>token.NoPos\<close> and the zero \<^verbatim>\<open>token.Position\<close>.\<close>

definition NoPos :: int where
  "NoPos = 0"

definition zero_Position :: Position where
  "zero_Position = \<lparr>Filename = [], Offset = 0, Position.Line = 0, Column = 0\<rparr>"

text \<open>
  A \<^verbatim>\<open>*token.FileSet\<close> maps a \<^verbatim>\<open>token.Pos\<close> to the file of the set that contains it, and
  is \<open>None\<close> for a \<^verbatim>\<open>Pos\<close> that lies in no file of the set. Of the file the model keeps
  two things: its name (\<^verbatim>\<open>File.Name()\<close>, the name under which the source text was read),
  and the position it reports for the \<^verbatim>\<open>Pos\<close> (\<^verbatim>\<open>File.Position(p)\<close>). The reported position
  follows \<^verbatim>\<open>//line\<close> directives: under a directive \<^verbatim>\<open>//line other.go:10\<close> its file name and
  line are those the directive gives, not those of the text.

  \<^verbatim>\<open>fset.Position(p)\<close> answers with the zero position for \<^verbatim>\<open>NoPos\<close> and for a \<^verbatim>\<open>Pos\<close> in no
  file. \<^verbatim>\<open>fset.File(p).Position(p)\<close>, which \<^verbatim>\<open>visitor.Visit\<close> uses, calls a method on the
  \<^verbatim>\<open>nil\<close> file in the second case and panics.
\<close>

type_synonym FileSet = "int \<Rightarrow> (string \<times> Position) option"

datatype panic = NilDereference | NilMapAssignment | IndexOutOfRange | FormatError | WriteError

definition FileSet_Position :: "FileSet \<Rightarrow> int \<Rightarrow> Position" where
  "FileSet_Position fs p =
     (if p \<noteq> NoPos then (case fs p of Some (name, pos) \<Rightarrow> pos | None \<Rightarrow> zero_Position)
      else zero_Position)"

definition File_Position :: "FileSet \<Rightarrow> int \<Rightarrow> panic + Position" where
  "File_Position fs p =
     (if p \<noteq> NoPos then (case fs p of Some (name, pos) \<Rightarrow> Inr pos | None \<Rightarrow> Inl NilDereference)
      else Inr zero_Position)"

text \<open>\<^verbatim>\<open>strconv.Itoa\<close> and \<^verbatim>\<open>Position.String()\<close>: \<^verbatim>\<open>file:line:column\<close>, without the column
  when it is 0, the file name alone when the line is not valid, \<^verbatim>\<open>-\<close> when all is empty.\<close>

function digits :: "nat \<Rightarrow> string" where
  "digits n =
     (if n < 10 then [''0123456789'' ! n]
      else digits (n div 10) @ [''0123456789'' ! (n mod 10)])"
  by pat_completeness auto
termination
  by (relation "measure id") auto

declare digits.simps [simp del]

definition Itoa :: "int \<Rightarrow> string" where
  "Itoa i = (if i < 0 then CHR ''-'' # digits (nat (- i)) else digits (nat i))"

definition Position_String :: "Position \<Rightarrow> string" where
  "Position_String pos =
     (let s = Filename pos;
          s = (if Position.Line pos > 0
               then (if s \<noteq> [] then s @ '':'' else s) @ Itoa (Position.Line pos) @
                    (if Column pos \<noteq> 0 then '':'' @ Itoa (Column pos) else [])
               else s)
      in if s = [] then ''-'' else s)"

text \<open>\<^verbatim>\<open>strings.HasPrefix\<close> and \<^verbatim>\<open>strings.Contains\<close>.\<close>

fun strings_HasPrefix :: "string \<Rightarrow> string \<Rightarrow> bool" where
  "strings_HasPrefix s [] = True"
| "strings_HasPrefix [] (p # ps) = False"
| "strings_HasPrefix (c # cs) (p # ps) = (c = p \<and> strings_HasPrefix cs ps)"

fun strings_Contains :: "string \<Rightarrow> string \<Rightarrow> bool" where
  "strings_Contains [] substr = (substr = [])"
| "strings_Contains (c # cs) substr =
     (strings_HasPrefix (c # cs) substr \<or> strings_Contains cs substr)"

subsection \<open>The syntax tree (go/ast) and the state of a run\<close>

text \<open>
  Every node of a Go syntax tree is a heap object; the sources compare nodes by address
  (\<^verbatim>\<open>n == i\<close>), key the type checker's maps by address and assign to \<^verbatim>\<open>Ident.Name\<close>. A
  node therefore carries its address. The shape of the tree never changes (each
  \<^verbatim>\<open>c.Replace\<close> and each assignment \<^verbatim>\<open>x.X = res\<close> puts back the node that was there); the
  one field that is written, \<^verbatim>\<open>Ident.Name\<close>, lives in the state.

  Only the node kinds that \<^verbatim>\<open>visitor.Visit\<close> and \<^verbatim>\<open>UnaryVisitor.Visit\<close> tell apart have a
  constructor of their own. \<open>Other\<close> is any other node (file, declaration, statement,
  call, composite literal, basic literal, ...) with its children that are not \<^verbatim>\<open>nil\<close>, in
  the order in which \<^verbatim>\<open>astutil.Apply\<close> walks them.
\<close>

type_synonym ptr = nat

datatype token = EQL | AND | OtherToken string

datatype Ident = Ident (Ident_ptr: ptr) (NamePos: int)

datatype node =
    IdentNode Ident
  | SelectorExpr ptr node Ident
  | UnaryExpr ptr token node
  | BinaryExpr ptr node token node
  | ParenExpr ptr node
  | KeyValueExpr ptr node node
  | AssignStmt ptr "node list" token "node list"
  | Other ptr "node list"

fun ptr_of :: "node \<Rightarrow> ptr" where
  "ptr_of (IdentNode i) = Ident_ptr i"
| "ptr_of (SelectorExpr p X Sel) = p"
| "ptr_of (UnaryExpr p op X) = p"
| "ptr_of (BinaryExpr p X op Y) = p"
| "ptr_of (ParenExpr p X) = p"
| "ptr_of (KeyValueExpr p Key Value) = p"
| "ptr_of (AssignStmt p Lhs tok Rhs) = p"
| "ptr_of (Other p children) = p"

text \<open>
  The standard library functions whose results the sources use unchanged:
  \<^verbatim>\<open>strings.TrimSpace\<close>; the lines that a \<^verbatim>\<open>bufio.Scanner\<close> yields for the bytes of a
  file; \<^verbatim>\<open>generatedCodeRegexp.MatchString\<close>; \<^verbatim>\<open>format.Node\<close> for a tree under the current
  identifier names (\<open>None\<close> is its error); and whether \<^verbatim>\<open>ioutil.WriteAndSyncFile\<close> succeeds
  for a file name.
\<close>

record stdlib =
  TrimSpace :: "string \<Rightarrow> string"
  ScanLines :: "string \<Rightarrow> string list"
  MatchString :: "string \<Rightarrow> bool"
  format_Node :: "(ptr \<Rightarrow> string) \<Rightarrow> node \<Rightarrow> string option"
  WriteAndSyncFile :: "string \<Rightarrow> bool"

text \<open>\<^verbatim>\<open>types.Info\<close>: \<^verbatim>\<open>ObjectOf\<close> for an identifier and \<^verbatim>\<open>TypeOf\<close> for an expression, both
  keyed by the node's address; \<open>None\<close> is Go's \<^verbatim>\<open>nil\<close>.\<close>

record Info =
  ObjectOf :: "ptr \<Rightarrow> Object option"
  TypeOf :: "ptr \<Rightarrow> gotype option"

text \<open>The fields of a \<^verbatim>\<open>visitor\<close> that are never assigned after its creation, with the
  library.\<close>

record env =
  lib :: stdlib
  typesInfo :: Info
  fset :: FileSet

text \<open>
  What a traversal reads and writes: \<^verbatim>\<open>Ident.Name\<close> of every identifier of the tree, the
  visitor's \<^verbatim>\<open>lines\<close> cache (\<open>None\<close> is the \<^verbatim>\<open>nil\<close> map of a visitor created without
  one) and its \<^verbatim>\<open>errors\<close>, and the files on disk (\<open>None\<close>: the file cannot be opened).
\<close>

record state =
  Name :: "ptr \<Rightarrow> string"
  lines :: "(string \<rightharpoonup> string list) option"
  errors :: "UnusedGetterError list"
  disk :: "string \<rightharpoonup> string"

subsection \<open>The violation recorder (gettercheck_visitor.go)\<close>

text \<open>\<^verbatim>\<open>readfile\<close>: \<^verbatim>\<open>nil\<close> when the file cannot be opened.\<close>

definition readfile :: "stdlib \<Rightarrow> (string \<rightharpoonup> string) \<Rightarrow> string \<Rightarrow> string list" where
  "readfile l d filename = (case d filename of None \<Rightarrow> [] | Some bytes \<Rightarrow> ScanLines l bytes)"

text \<open>
  \<^verbatim>\<open>visitor.addErrorAtPosition\<close>. Storing into the \<^verbatim>\<open>nil\<close> map panics; so does the index
  \<^verbatim>\<open>lines[pos.Line-1]\<close> when \<^verbatim>\<open>pos.Line-1\<close> is negative (the guard only compares it with
  \<^verbatim>\<open>len(lines)\<close>).
\<close>

definition addErrorAtPosition :: "env \<Rightarrow> int \<Rightarrow> Ident \<Rightarrow> Position \<Rightarrow> state \<Rightarrow> panic + state" where
  "addErrorAtPosition e position ident getterPos v =
     (let pos = FileSet_Position (fset e) position in
      case lines v of
        None \<Rightarrow> Inl NilMapAssignment
      | Some cache \<Rightarrow>
          (let ls = (case cache (Filename pos) of
                       Some ls \<Rightarrow> ls
                     | None \<Rightarrow> readfile (lib e) (disk v) (Filename pos));
               cache' = cache(Filename pos \<mapsto> ls)
           in if Position.Line pos - 1 < int (length ls)
              then (if Position.Line pos - 1 < 0 then Inl IndexOutOfRange
                    else Inr (v\<lparr>lines := Some cache',
                               errors := errors v @
                                 [\<lparr>Pos = pos, GetterPos = getterPos,
                                   Line = TrimSpace (lib e) (ls ! nat (Position.Line pos - 1)),
                                   FuncName = Name v (Ident_ptr ident)\<rparr>]\<rparr>))
              else Inr (v\<lparr>lines := Some cache',
                         errors := errors v @
                           [\<lparr>Pos = pos, GetterPos = getterPos, Line = ''??'',
                             FuncName = Name v (Ident_ptr ident)\<rparr>]\<rparr>)))"

subsection \<open>The traversal engine (gettercheck_visitor.go)\<close>

definition basicPointerTypes :: "string list" where
  "basicPointerTypes =
     [''*string'', ''*int'', ''*bool'', ''*int'', ''*int32'', ''*int64'',
      ''*float32'', ''*float64'', ''*uint32'', ''*uint64'']"

text \<open>
  The inner \<^verbatim>\<open>switch p := c.Parent().(type)\<close> of \<^verbatim>\<open>visitor.Visit\<close>: \<open>Inr True\<close> when it
  returns early, \<open>Inr False\<close> when control falls through to the lookup of the selected
  object. The parent is \<open>None\<close> at the root of an \<^verbatim>\<open>astutil.Apply\<close>, whose parent is a
  node of no kind. \<^verbatim>\<open>TypeOf(..).String()\<close> on a \<^verbatim>\<open>nil\<close> type panics.
\<close>

definition parent_exempts :: "env \<Rightarrow> node option \<Rightarrow> node \<Rightarrow> panic + bool" where
  "parent_exempts e parent n =
     (case parent of
        Some (AssignStmt _ Lhs _ _) \<Rightarrow> Inr (list_ex (\<lambda>i. ptr_of n = ptr_of i) Lhs)
      | Some (BinaryExpr _ X op Y) \<Rightarrow>
          (if op = EQL then
             (case Y of
                IdentNode i \<Rightarrow>
                  (case TypeOf (typesInfo e) (Ident_ptr i) of
                     None \<Rightarrow> Inl NilDereference
                   | Some t \<Rightarrow>
                       if Type_String t = ''untyped nil'' then
                         (case X of
                            SelectorExpr _ _ sel \<Rightarrow>
                              (case TypeOf (typesInfo e) (Ident_ptr sel) of
                                 None \<Rightarrow> Inl NilDereference
                               | Some b \<Rightarrow> Inr (contains basicPointerTypes (Type_String b)))
                          | _ \<Rightarrow> Inr False)
                       else Inr False)
              | _ \<Rightarrow> Inr False)
           else Inr False)
      | Some (UnaryExpr _ op _) \<Rightarrow> Inr (op = AND)
      | _ \<Rightarrow> Inr False)"

text \<open>
  The case \<^verbatim>\<open>*ast.SelectorExpr\<close> of \<^verbatim>\<open>visitor.Visit\<close>, for the cursor (\<open>parent\<close>, \<open>n\<close>).
  \<^verbatim>\<open>FindMethod\<close> of a \<^verbatim>\<open>nil\<close> type is \<^verbatim>\<open>nil\<close>. The identifier is renamed before
  \<^verbatim>\<open>addErrorAtPosition\<close> reads its name.
\<close>

definition Visit_SelectorExpr :: "env \<Rightarrow> node option \<Rightarrow> node \<Rightarrow> state \<Rightarrow> panic + state" where
  "Visit_SelectorExpr e parent n v =
     (case n of
        SelectorExpr _ X Sel \<Rightarrow>
          (case parent_exempts e parent n of
             Inl p \<Rightarrow> Inl p
           | Inr True \<Rightarrow> Inr v
           | Inr False \<Rightarrow>
               (case ObjectOf (typesInfo e) (Ident_ptr Sel) of
                  Some (Var p) \<Rightarrow>
                    (case File_Position (fset e) p of
                       Inl err \<Rightarrow> Inl err
                     | Inr goPos \<Rightarrow>
                         if strings_Contains (Position_String goPos) ''.pb.go:'' then
                           (let getter = ''Get'' @ Name v (Ident_ptr Sel) in
                            case (case TypeOf (typesInfo e) (ptr_of X) of
                                    None \<Rightarrow> None
                                  | Some t \<Rightarrow> FindMethod t getter) of
                              None \<Rightarrow> Inr v
                            | Some m \<Rightarrow>
                                (case File_Position (fset e) (Func_Pos m) of
                                   Inl err \<Rightarrow> Inl err
                                 | Inr goMethodPos \<Rightarrow>
                                     addErrorAtPosition e (NamePos Sel) Sel goMethodPos
                                       (v\<lparr>Name := (Name v)(Ident_ptr Sel := getter @ ''()'')\<rparr>)))
                         else Inr v)
                | _ \<Rightarrow> Inr v))
      | _ \<Rightarrow> Inr v)"

text \<open>
  \<^verbatim>\<open>astutil.Apply(root, v.Visit, nil)\<close> for a \<^verbatim>\<open>visitor\<close> (\<open>Apply_visitor\<close>) and for a
  \<^verbatim>\<open>UnaryVisitor\<close> (\<open>Apply_UnaryVisitor\<close>). \<^verbatim>\<open>Apply\<close> calls \<^verbatim>\<open>Visit\<close> on a node and then, as
  \<^verbatim>\<open>Visit\<close> returns \<^verbatim>\<open>true\<close> for every node that is not \<^verbatim>\<open>nil\<close>, walks the node's children
  in order. What \<^verbatim>\<open>Visit\<close> does at a node comes first in each equation:
  \<^item> \<^verbatim>\<open>visitor.Visit\<close> at a key-value pair runs a nested \<^verbatim>\<open>Apply\<close> on the value; at a unary
    expression, a nested \<^verbatim>\<open>Apply\<close> on the receiver of its operand when the operand is a
    selector, and a \<^verbatim>\<open>UnaryVisitor\<close> traversal of the operand otherwise;
  \<^item> \<^verbatim>\<open>UnaryVisitor.Visit\<close> at a parenthesised selector runs a nested \<^verbatim>\<open>Apply\<close> on the
    selector's receiver with a new visitor \<^verbatim>\<open>rv\<close>, created with \<^verbatim>\<open>typesInfo\<close> and \<^verbatim>\<open>fset\<close>
    only: its \<^verbatim>\<open>lines\<close> map is \<^verbatim>\<open>nil\<close>, and its \<^verbatim>\<open>errors\<close> are dropped with it; at doubled
    parentheses and at a selector it runs a nested \<^verbatim>\<open>UnaryVisitor\<close> traversal.
  The selector's \<^verbatim>\<open>Sel\<close> identifier is walked as a child, too; neither visitor does
  anything at an identifier.
\<close>

fun Apply_visitor :: "env \<Rightarrow> node option \<Rightarrow> node \<Rightarrow> state \<Rightarrow> panic + state"
  and Apply_visitor_list :: "env \<Rightarrow> node option \<Rightarrow> node list \<Rightarrow> state \<Rightarrow> panic + state"
  and Apply_UnaryVisitor :: "env \<Rightarrow> node \<Rightarrow> state \<Rightarrow> panic + state"
  and Apply_UnaryVisitor_list :: "env \<Rightarrow> node list \<Rightarrow> state \<Rightarrow> panic + state"
where
  "Apply_visitor e parent (IdentNode i) v = Inr v"
| "Apply_visitor e parent (SelectorExpr p X Sel) v =
     (case Visit_SelectorExpr e parent (SelectorExpr p X Sel) v of
        Inl err \<Rightarrow> Inl err
      | Inr v1 \<Rightarrow> Apply_visitor e (Some (SelectorExpr p X Sel)) X v1)"
| "Apply_visitor e parent (KeyValueExpr p Key Value) v =
     (case Apply_visitor e None Value v of
        Inl err \<Rightarrow> Inl err
      | Inr v1 \<Rightarrow>
          (case Apply_visitor e (Some (KeyValueExpr p Key Value)) Key v1 of
             Inl err \<Rightarrow> Inl err
           | Inr v2 \<Rightarrow> Apply_visitor e (Some (KeyValueExpr p Key Value)) Value v2))"
| "Apply_visitor e parent (UnaryExpr p op X) v =
     (case (case X of
              SelectorExpr q XX Sel \<Rightarrow> Apply_visitor e None XX v
            | _ \<Rightarrow> Apply_UnaryVisitor e X v) of
        Inl err \<Rightarrow> Inl err
      | Inr v1 \<Rightarrow> Apply_visitor e (Some (UnaryExpr p op X)) X v1)"
| "Apply_visitor e parent (BinaryExpr p X op Y) v =
     (case Apply_visitor e (Some (BinaryExpr p X op Y)) X v of
        Inl err \<Rightarrow> Inl err
      | Inr v1 \<Rightarrow> Apply_visitor e (Some (BinaryExpr p X op Y)) Y v1)"
| "Apply_visitor e parent (ParenExpr p X) v = Apply_visitor e (Some (ParenExpr p X)) X v"
| "Apply_visitor e parent (AssignStmt p Lhs tok Rhs) v =
     (case Apply_visitor_list e (Some (AssignStmt p Lhs tok Rhs)) Lhs v of
        Inl err \<Rightarrow> Inl err
      | Inr v1 \<Rightarrow> Apply_visitor_list e (Some (AssignStmt p Lhs tok Rhs)) Rhs v1)"
| "Apply_visitor e parent (Other p children) v =
     Apply_visitor_list e (Some (Other p children)) children v"
| "Apply_visitor_list e parent [] v = Inr v"
| "Apply_visitor_list e parent (n # ns) v =
     (case Apply_visitor e parent n v of
        Inl err \<Rightarrow> Inl err
      | Inr v1 \<Rightarrow> Apply_visitor_list e parent ns v1)"
| "Apply_UnaryVisitor e (IdentNode i) v = Inr v"
| "Apply_UnaryVisitor e (ParenExpr p X) v =
     (case (case X of
              SelectorExpr q XX Sel \<Rightarrow>
                (case Apply_visitor e None XX (v\<lparr>lines := None, errors := []\<rparr>) of
                   Inl err \<Rightarrow> Inl err
                 | Inr rv \<Rightarrow> Inr (v\<lparr>Name := Name rv\<rparr>))
            | _ \<Rightarrow> Inr v) of
        Inl err \<Rightarrow> Inl err
      | Inr v1 \<Rightarrow>
          (case (case X of
                   ParenExpr q XX \<Rightarrow> Apply_UnaryVisitor e XX v1
                 | _ \<Rightarrow> Inr v1) of
             Inl err \<Rightarrow> Inl err
           | Inr v2 \<Rightarrow> Apply_UnaryVisitor e X v2))"
| "Apply_UnaryVisitor e (SelectorExpr p X Sel) v =
     (case Apply_UnaryVisitor e X v of
        Inl err \<Rightarrow> Inl err
      | Inr v1 \<Rightarrow> Apply_UnaryVisitor e X v1)"
| "Apply_UnaryVisitor e (KeyValueExpr p Key Value) v =
     (case Apply_UnaryVisitor e Key v of
        Inl err \<Rightarrow> Inl err
      | Inr v1 \<Rightarrow> Apply_UnaryVisitor e Value v1)"
| "Apply_UnaryVisitor e (UnaryExpr p op X) v = Apply_UnaryVisitor e X v"
| "Apply_UnaryVisitor e (BinaryExpr p X op Y) v =
     (case Apply_UnaryVisitor e X v of
        Inl err \<Rightarrow> Inl err
      | Inr v1 \<Rightarrow> Apply_UnaryVisitor e Y v1)"
| "Apply_UnaryVisitor e (AssignStmt p Lhs tok Rhs) v =
     (case Apply_UnaryVisitor_list e Lhs v of
        Inl err \<Rightarrow> Inl err
      | Inr v1 \<Rightarrow> Apply_UnaryVisitor_list e Rhs v1)"
| "Apply_UnaryVisitor e (Other p children) v = Apply_UnaryVisitor_list e children v"
| "Apply_UnaryVisitor_list e [] v = Inr v"
| "Apply_UnaryVisitor_list e (n # ns) v =
     (case Apply_UnaryVisitor e n v of
        Inl err \<Rightarrow> Inl err
      | Inr v1 \<Rightarrow> Apply_UnaryVisitor_list e ns v1)"

subsection \<open>Checking a package (errcheck.go) and a set of paths (main.go)\<close>

text \<open>\<^verbatim>\<open>*ast.File\<close>: the position of its \<^verbatim>\<open>package\<close> keyword (\<^verbatim>\<open>astFile.Pos()\<close>), the text of
  its comments by comment group, and the file as the root node of a traversal.\<close>

record File =
  Package :: int
  Comments :: "string list list"
  File_node :: node

record Exclusions =
  TestFiles :: bool
  GeneratedFiles :: bool

record Checker =
  Exclusions :: Exclusions
  WriteGetters :: bool
  Mod :: string

text \<open>\<^verbatim>\<open>packages.Package\<close>, as far as the sources read it.\<close>

record packages_Package =
  ID :: string
  Errors :: "string list"
  Syntax :: "File list"
  TypesInfo :: Info
  Fset :: FileSet

text \<open>\<^verbatim>\<open>Checker.shouldSkipFile\<close> (it also prints the comment that matched).\<close>

definition shouldSkipFile :: "stdlib \<Rightarrow> Checker \<Rightarrow> File \<Rightarrow> bool" where
  "shouldSkipFile l c file =
     (if \<not> GeneratedFiles (Exclusions c) then False
      else list_ex (\<lambda>cg. list_ex (MatchString l) cg) (Comments file))"

text \<open>The loop \<^verbatim>\<open>for _, astFile := range pkg.Syntax\<close> of \<^verbatim>\<open>Checker.CheckPackage\<close>. Both
  errors of the write-back are turned into panics by the source.\<close>

fun range_Syntax :: "stdlib \<Rightarrow> Checker \<Rightarrow> env \<Rightarrow> File list \<Rightarrow> state \<Rightarrow> panic + state" where
  "range_Syntax l c e [] v = Inr v"
| "range_Syntax l c e (astFile # rest) v =
     (if shouldSkipFile l c astFile then range_Syntax l c e rest v
      else
        (case Apply_visitor e None (File_node astFile) v of
           Inl err \<Rightarrow> Inl err
         | Inr v1 \<Rightarrow>
             if WriteGetters c then
               (case format_Node l (Name v1) (File_node astFile) of
                  None \<Rightarrow> Inl FormatError
                | Some buf \<Rightarrow>
                    (let fileName = Filename (FileSet_Position (fset e) (Package astFile)) in
                     if WriteAndSyncFile l fileName
                     then range_Syntax l c e rest (v1\<lparr>disk := (disk v1)(fileName \<mapsto> buf)\<rparr>)
                     else Inl WriteError))
             else range_Syntax l c e rest v1))"

text \<open>
  \<^verbatim>\<open>Checker.CheckPackage\<close>. The visitor is new: an empty \<^verbatim>\<open>lines\<close> map and no errors; the
  identifier names and the disk are those of the run. The result is the visitor's
  \<^verbatim>\<open>errors\<close>, returned with the state the check leaves behind.
\<close>

definition CheckPackage :: "stdlib \<Rightarrow> Checker \<Rightarrow> packages_Package \<Rightarrow> state \<Rightarrow> panic + (Result \<times> state)" where
  "CheckPackage l c pkg w =
     (let e = \<lparr>lib = l, typesInfo = TypesInfo pkg, fset = Fset pkg\<rparr>;
          v = w\<lparr>lines := Some Map.empty, errors := []\<rparr>
      in case range_Syntax l c e (Syntax pkg) v of
           Inl err \<Rightarrow> Inl err
         | Inr v' \<Rightarrow> Inr (\<lparr>UnusedGetterError = errors v'\<rparr>, v'))"

text \<open>
  \<^verbatim>\<open>checkPaths\<close>. \<^verbatim>\<open>c.LoadPackages\<close> is the external loader; its answer \<open>loaded\<close> is a
  parameter. \<open>enqueue\<close> is the first loop, which fills the channel \<^verbatim>\<open>work\<close> and returns at
  the first package that carries errors. The worker goroutines start after that loop.
  They are modelled by one worker that takes the packages in queue order; a panic in a
  worker ends the run.
\<close>

datatype check_error = LoadError string | PackageErrors string "string list" | Panic panic

fun enqueue :: "packages_Package list \<Rightarrow> packages_Package list \<Rightarrow> check_error + packages_Package list" where
  "enqueue [] work = Inr work"
| "enqueue (pkg # pkgs) work =
     (if length (Errors pkg) > 0 then Inl (PackageErrors (ID pkg) (Errors pkg))
      else enqueue pkgs (work @ [pkg]))"

fun workers :: "stdlib \<Rightarrow> Checker \<Rightarrow> packages_Package list \<Rightarrow> Result \<Rightarrow> state \<Rightarrow> check_error + (Result \<times> state)" where
  "workers l c [] result w = Inr (result, w)"
| "workers l c (pkg # work) result w =
     (case CheckPackage l c pkg w of
        Inl err \<Rightarrow> Inl (Panic err)
      | Inr (r, w') \<Rightarrow> workers l c work (Append result r) w')"

definition checkPaths ::
  "(UnusedGetterError list \<Rightarrow> UnusedGetterError list) \<Rightarrow> stdlib \<Rightarrow> Checker \<Rightarrow>
   string + packages_Package list \<Rightarrow> state \<Rightarrow> check_error + (Result \<times> state)" where
  "checkPaths sort_Sort l c loaded w =
     (case loaded of
        Inl err \<Rightarrow> Inl (LoadError err)
      | Inr pkgs \<Rightarrow>
          (case enqueue pkgs [] of
             Inl err \<Rightarrow> Inl err
           | Inr work \<Rightarrow>
               (case workers l c work \<lparr>UnusedGetterError = []\<rparr> w of
                  Inl err \<Rightarrow> Inl err
                | Inr (result, w') \<Rightarrow> Inr (Unique sort_Sort result, w'))))"

subsection \<open>Vocabulary of the properties\<close>

text \<open>
  The places of a tree: every node below \<open>n\<close> paired with its parent in the tree, and
  \<open>occurrences parent n\<close>, which adds \<open>n\<close> itself under the given parent.
\<close>

fun below :: "node \<Rightarrow> (node option \<times> node) set"
  and below_list :: "node option \<Rightarrow> node list \<Rightarrow> (node option \<times> node) set"
where
  "below (IdentNode i) = {}"
| "below (SelectorExpr p X Sel) = insert (Some (SelectorExpr p X Sel), X) (below X)"
| "below (UnaryExpr p op X) = insert (Some (UnaryExpr p op X), X) (below X)"
| "below (BinaryExpr p X op Y) =
     insert (Some (BinaryExpr p X op Y), X) (below X) \<union>
     insert (Some (BinaryExpr p X op Y), Y) (below Y)"
| "below (ParenExpr p X) = insert (Some (ParenExpr p X), X) (below X)"
| "below (KeyValueExpr p Key Value) =
     insert (Some (KeyValueExpr p Key Value), Key) (below Key) \<union>
     insert (Some (KeyValueExpr p Key Value), Value) (below Value)"
| "below (AssignStmt p Lhs tok Rhs) =
     below_list (Some (AssignStmt p Lhs tok Rhs)) Lhs \<union>
     below_list (Some (AssignStmt p Lhs tok Rhs)) Rhs"
| "below (Other p children) = below_list (Some (Other p children)) children"
| "below_list parent [] = {}"
| "below_list parent (n # ns) = insert (parent, n) (below n) \<union> below_list parent ns"

definition occurrences :: "node option \<Rightarrow> node \<Rightarrow> (node option \<times> node) set" where
  "occurrences parent n = insert (parent, n) (below n)"

text \<open>The parents under which \<^verbatim>\<open>visitor.Visit\<close> starts a nested \<^verbatim>\<open>Apply\<close> on a child: a
  key-value pair (on its value) and a selector (on its receiver).\<close>

definition transparent_parent :: "node \<Rightarrow> bool" where
  "transparent_parent q =
     (case q of KeyValueExpr _ _ _ \<Rightarrow> True | SelectorExpr _ _ _ \<Rightarrow> True | _ \<Rightarrow> False)"

text \<open>The node is one of the left-hand sides of its parent assignment.\<close>

definition assignment_target :: "node option \<Rightarrow> node \<Rightarrow> bool" where
  "assignment_target parent n =
     (case parent of
        Some (AssignStmt _ Lhs _ _) \<Rightarrow> list_ex (\<lambda>i. ptr_of n = ptr_of i) Lhs
      | _ \<Rightarrow> False)"

text \<open>The parent is an address-of operator.\<close>

definition address_operand :: "node option \<Rightarrow> bool" where
  "address_operand parent = (case parent of Some (UnaryExpr _ op _) \<Rightarrow> op = AND | _ \<Rightarrow> False)"

text \<open>The parent is the comparison \<open>n == nil\<close> and the type of the selected field prints
  as one of \<^const>\<open>basicPointerTypes\<close>.\<close>

definition nil_compared_basic_pointer :: "env \<Rightarrow> node option \<Rightarrow> node \<Rightarrow> bool" where
  "nil_compared_basic_pointer e parent n =
     (\<exists>bp p X Sel i t b.
        parent = Some (BinaryExpr bp n EQL (IdentNode i)) \<and> n = SelectorExpr p X Sel \<and>
        TypeOf (typesInfo e) (Ident_ptr i) = Some t \<and> Type_String t = ''untyped nil'' \<and>
        TypeOf (typesInfo e) (Ident_ptr Sel) = Some b \<and>
        Type_String b \<in> set basicPointerTypes)"

text \<open>
  \<open>flagged_at e parent n x\<close>: the violation \<open>x\<close> is what \<^verbatim>\<open>visitor.Visit\<close> records at the
  selector \<open>n\<close> under \<open>parent\<close>: no exemption applies, the selected object is a variable
  declared at a position whose printed form contains \<^verbatim>\<open>.pb.go:\<close>, and \<^verbatim>\<open>FindMethod\<close> finds
  a method \<open>m\<close> on the type of the receiver; \<open>x\<close> carries the position of the selected
  identifier, the position of \<open>m\<close> and the name of \<open>m\<close> followed by \<^verbatim>\<open>()\<close>.
\<close>

definition flagged_at :: "env \<Rightarrow> node option \<Rightarrow> node \<Rightarrow> UnusedGetterError \<Rightarrow> bool" where
  "flagged_at e parent n x =
     (\<exists>p X Sel declPos goPos t m.
        n = SelectorExpr p X Sel \<and>
        parent_exempts e parent n = Inr False \<and>
        ObjectOf (typesInfo e) (Ident_ptr Sel) = Some (Var declPos) \<and>
        File_Position (fset e) declPos = Inr goPos \<and>
        strings_Contains (Position_String goPos) ''.pb.go:'' \<and>
        TypeOf (typesInfo e) (ptr_of X) = Some t \<and>
        FindMethod t (Func_Name m) = Some m \<and>
        FuncName x = Func_Name m @ ''()'' \<and>
        File_Position (fset e) (Func_Pos m) = Inr (GetterPos x) \<and>
        Pos x = FileSet_Position (fset e) (NamePos Sel))"

text \<open>The violations of \<open>v'\<close> that \<open>v\<close> did not have yet (\<^verbatim>\<open>errors\<close> only grows).\<close>

definition recorded :: "state \<Rightarrow> state \<Rightarrow> UnusedGetterError list" where
  "recorded v v' = drop (length (errors v)) (errors v')"

text \<open>Every level of pointer removed.\<close>

fun strip_pointers :: "gotype \<Rightarrow> gotype" where
  "strip_pointers (Pointer elem) = strip_pointers elem"
| "strip_pointers t = t"

text \<open>The declared methods that \<^const>\<open>FindMethod\<close> scans.\<close>

definition scanned_methods :: "gotype \<Rightarrow> Func list" where
  "scanned_methods t = (case strip_pointers t of Named _ _ methods \<Rightarrow> methods | _ \<Rightarrow> [])"

text \<open>No method that the type checker reports for a receiver has a closing parenthesis in
  its name (a Go identifier has none).\<close>

definition methods_are_identifiers :: "env \<Rightarrow> bool" where
  "methods_are_identifiers e =
     (\<forall>p t m. TypeOf (typesInfo e) p = Some t \<longrightarrow> m \<in> set (scanned_methods t) \<longrightarrow>
        CHR '')'' \<notin> set (Func_Name m))"

definition traced :: "env \<Rightarrow> (node option \<times> node) set \<Rightarrow> state \<Rightarrow> state \<Rightarrow> bool" where
  "traced e S v v' =
     (\<exists>new. errors v' = errors v @ new \<and> disk v' = disk v \<and>
        (\<forall>x \<in> set new. \<exists>(q, s) \<in> S. flagged_at e q s x) \<and>
        (\<forall>i. Name v' i \<noteq> Name v i \<longrightarrow> (\<exists>x \<in> set new. FuncName x = Name v' i)))"

definition renamed_or_same :: "(ptr \<Rightarrow> string) \<Rightarrow> state \<Rightarrow> bool" where
  "renamed_or_same N0 v = (\<forall>i. Name v i = N0 i \<or> Name v i = ''Get'' @ N0 i @ ''()'')"

definition traced_names :: "env \<Rightarrow> (ptr \<Rightarrow> string) \<Rightarrow> (node option \<times> node) set \<Rightarrow> state \<Rightarrow> state \<Rightarrow> bool" where
  "traced_names e N0 S v v' =
     (renamed_or_same N0 v \<longrightarrow>
        renamed_or_same N0 v' \<and>
        (\<exists>new. errors v' = errors v @ new \<and>
           (\<forall>x \<in> set new. \<exists>(q, s) \<in> S. \<exists>p X Sel.
               s = SelectorExpr p X Sel \<and> flagged_at e q s x \<and>
               FuncName x = ''Get'' @ N0 (Ident_ptr Sel) @ ''()'')))"



subsection \<open>The specification's wording, for comparison\<close>

text \<open>
  The accessor lookup as the specification describes it: one level of reference is
  removed if present; a named aggregate type is scanned for a method called \<^verbatim>\<open>Get\<close> plus
  the capitalised field name that takes no arguments; any other type has no accessor.
\<close>

definition capitalize :: "string \<Rightarrow> string" where
  "capitalize s =
     (case s of
        [] \<Rightarrow> []
      | c # cs \<Rightarrow>
          (if CHR ''a'' \<le> c \<and> c \<le> CHR ''z'' then char_of (of_char c - (32 :: nat)) else c) # cs)"

definition FindAccessor_spec :: "gotype \<Rightarrow> string \<Rightarrow> Func option" where
  "FindAccessor_spec t fieldName =
     (case (case t of Pointer elem \<Rightarrow> elem | _ \<Rightarrow> t) of
        Named _ (Struct _) methods \<Rightarrow>
          find (\<lambda>m. Func_Name m = ''Get'' @ capitalize fieldName \<and> Func_Params m = 0) methods
      | _ \<Rightarrow> None)"

text \<open>
  A pointer to a primitive type in the specification's sense (string, bool and the
  numeric types of Go).
\<close>

definition primitive_names :: "string list" where
  "primitive_names =
     [''string'', ''bool'', ''int'', ''int8'', ''int16'', ''int32'', ''int64'',
      ''uint'', ''uint8'', ''uint16'', ''uint32'', ''uint64'', ''uintptr'',
      ''float32'', ''float64'', ''complex64'', ''complex128'']"

definition pointer_to_primitive :: "gotype \<Rightarrow> bool" where
  "pointer_to_primitive t =
     (case t of Pointer (Basic name) \<Rightarrow> name \<in> set primitive_names | _ \<Rightarrow> False)"

subsection \<open>A small program to run the model on\<close>

text \<open>
  A generated package \<^verbatim>\<open>generated/basic.pb.go\<close> declares \<^verbatim>\<open>Basic\<close> (fields \<^verbatim>\<open>Name string\<close>,
  \<^verbatim>\<open>Address *string\<close>, \<^verbatim>\<open>Small *int8\<close>, \<^verbatim>\<open>Valid bool\<close>) and \<^verbatim>\<open>Parent\<close> (field
  \<^verbatim>\<open>Child *Basic\<close>), each with its getters, as the test data of the repository does. A
  hand-written \<^verbatim>\<open>Child\<close> with a \<^verbatim>\<open>GetName\<close> method is declared in \<^verbatim>\<open>main.go\<close> itself, as in
  \<^verbatim>\<open>testdata/main.go\<close>.
\<close>

definition ex_Basic :: gotype where
  "ex_Basic =
     Named ''generated.Basic'' (Struct ''struct{Name string; Address *string; Small *int8; Valid bool}'')
       [Func ''GetName'' 1101 0, Func ''GetAddress'' 1201 0, Func ''GetSmall'' 1301 0,
        Func ''GetValid'' 1501 0]"

definition ex_Parent :: gotype where
  "ex_Parent =
     Named ''generated.Parent'' (Struct ''struct{Child *generated.Basic}'')
       [Func ''GetChild'' 1401 0]"

definition ex_Child :: gotype where
  "ex_Child = Named ''src.Child'' (Struct ''struct{Name string}'') [Func ''GetName'' 301 0]"

text \<open>
  A second hand-written type \<^verbatim>\<open>Lined\<close> (field \<^verbatim>\<open>Name string\<close>, method \<^verbatim>\<open>GetName\<close>) is
  declared in \<^verbatim>\<open>hand.go\<close>, whose second line is the directive \<^verbatim>\<open>//line fake.pb.go:1\<close>: the
  declarations on the lines after it are reported as lines 1, 2, ... of \<^verbatim>\<open>fake.pb.go\<close>,
  with no column.
\<close>

definition ex_Lined :: gotype where
  "ex_Lined = Named ''src.Lined'' (Struct ''struct{Name string}'') [Func ''GetName'' 2316 0]"

text \<open>Positions 1..999 lie in \<^verbatim>\<open>main.go\<close>, 1000..1999 in the generated file, 2000..2999 in
  \<^verbatim>\<open>hand.go\<close>, a hundred to the line, the directive being on 2100..2199.\<close>

definition ex_fset :: FileSet where
  "ex_fset p =
     (if 1 \<le> p \<and> p < 1000 then
        Some (''main.go'',
              \<lparr>Filename = ''main.go'', Offset = p - 1,
               Position.Line = (p - 1) div 40 + 1, Column = (p - 1) mod 40 + 1\<rparr>)
      else if 1000 \<le> p \<and> p < 2000 then
        Some (''generated/basic.pb.go'',
              \<lparr>Filename = ''generated/basic.pb.go'', Offset = p - 1000,
               Position.Line = (p - 1000) div 100 + 1, Column = (p - 1000) mod 100 + 1\<rparr>)
      else if 2000 \<le> p \<and> p < 2200 then
        Some (''hand.go'',
              \<lparr>Filename = ''hand.go'', Offset = p - 2000,
               Position.Line = (p - 2000) div 100 + 1, Column = (p - 2000) mod 100 + 1\<rparr>)
      else if 2200 \<le> p \<and> p < 3000 then
        Some (''hand.go'',
              \<lparr>Filename = ''fake.pb.go'', Offset = p - 2000,
               Position.Line = (p - 2000) div 100 - 1, Column = 0\<rparr>)
      else None)"

fun ex_split :: "string \<Rightarrow> string \<Rightarrow> string list" where
  "ex_split cur [] = (if cur = [] then [] else [cur])"
| "ex_split cur (c # cs) =
     (if c = CHR 0x0A then cur # ex_split [] cs else ex_split (cur @ [c]) cs)"

definition ex_trim :: "string \<Rightarrow> string" where
  "ex_trim s =
     rev (dropWhile (\<lambda>c. c = CHR '' '' \<or> c = CHR 0x09)
       (rev (dropWhile (\<lambda>c. c = CHR '' '' \<or> c = CHR 0x09) s)))"

definition ex_lib :: stdlib where
  "ex_lib =
     \<lparr>TrimSpace = ex_trim, ScanLines = ex_split [],
      MatchString = (\<lambda>s. strings_HasPrefix s ''// Code generated''),
      format_Node = (\<lambda>names n. Some []), WriteAndSyncFile = (\<lambda>f. True)\<rparr>"

text \<open>
  The statements, each the body of \<^verbatim>\<open>func main\<close> on line 4 of its own \<^verbatim>\<open>main.go\<close>, with
  the addresses of their nodes:
  \<^item> \<open>ex_lhs\<close> (1..10): \<^verbatim>\<open>a.Name, b.Name = "x", "y"\<close>
  \<^item> \<open>ex_nested\<close> (11..19): \<^verbatim>\<open>a.Child.Name = "hello"\<close>
  \<^item> \<open>ex_nil\<close> (20..29): \<^verbatim>\<open>if c.Address == nil {}\<close>
  \<^item> \<open>ex_read\<close> (30..35): \<^verbatim>\<open>_ = a.Name\<close>
  \<^item> \<open>ex_paren\<close> (40..49): \<^verbatim>\<open>_ = !(p.Child.Valid)\<close>
  \<^item> \<open>ex_small\<close> (50..59): \<^verbatim>\<open>if c.Small == nil {}\<close>
  \<^item> \<open>ex_hand\<close> (60..65): \<^verbatim>\<open>_ = h.Name\<close> with \<^verbatim>\<open>h\<close> of the hand-written type \<^verbatim>\<open>Child\<close>
  \<^item> \<open>ex_lined\<close> (70..75): \<^verbatim>\<open>_ = d.Name\<close> with \<^verbatim>\<open>d\<close> of the hand-written type \<^verbatim>\<open>Lined\<close>
\<close>

definition ex_lhs :: node where
  "ex_lhs =
     Other 1
       [AssignStmt 2
          [SelectorExpr 3 (IdentNode (Ident 4 122)) (Ident 5 124),
           SelectorExpr 6 (IdentNode (Ident 7 130)) (Ident 8 132)]
          (OtherToken ''='')
          [Other 9 [], Other 10 []]]"

definition ex_nested_target :: node where
  "ex_nested_target =
     SelectorExpr 12 (SelectorExpr 13 (IdentNode (Ident 14 122)) (Ident 15 124)) (Ident 16 130)"

definition ex_nested_assign :: node where
  "ex_nested_assign = AssignStmt 17 [ex_nested_target] (OtherToken ''='') [Other 18 []]"

definition ex_nested :: node where
  "ex_nested = Other 11 [ex_nested_assign]"

definition ex_nil_selector :: node where
  "ex_nil_selector = SelectorExpr 22 (IdentNode (Ident 23 125)) (Ident 24 127)"

definition ex_nil_compare :: node where
  "ex_nil_compare = BinaryExpr 21 ex_nil_selector EQL (IdentNode (Ident 25 138))"

definition ex_nil :: node where
  "ex_nil = Other 20 [ex_nil_compare, Other 26 []]"

definition ex_read_selector :: node where
  "ex_read_selector = SelectorExpr 31 (IdentNode (Ident 32 126)) (Ident 33 128)"

definition ex_read_assign :: node where
  "ex_read_assign = AssignStmt 34 [IdentNode (Ident 35 122)] (OtherToken ''='') [ex_read_selector]"

definition ex_read :: node where
  "ex_read = Other 30 [ex_read_assign]"

definition ex_paren :: node where
  "ex_paren =
     Other 40
       [AssignStmt 49 [IdentNode (Ident 48 122)] (OtherToken ''='')
          [UnaryExpr 41 (OtherToken ''!'')
             (ParenExpr 42
                (SelectorExpr 43
                   (SelectorExpr 44 (IdentNode (Ident 45 128)) (Ident 46 130))
                   (Ident 47 136)))]]"

definition ex_small_selector :: node where
  "ex_small_selector = SelectorExpr 52 (IdentNode (Ident 53 125)) (Ident 54 127)"

definition ex_small_compare :: node where
  "ex_small_compare = BinaryExpr 51 ex_small_selector EQL (IdentNode (Ident 55 136))"

definition ex_small :: node where
  "ex_small = Other 50 [ex_small_compare, Other 56 []]"

definition ex_hand_selector :: node where
  "ex_hand_selector = SelectorExpr 61 (IdentNode (Ident 62 126)) (Ident 63 128)"

definition ex_hand_assign :: node where
  "ex_hand_assign = AssignStmt 64 [IdentNode (Ident 65 122)] (OtherToken ''='') [ex_hand_selector]"

definition ex_hand :: node where
  "ex_hand = Other 60 [ex_hand_assign]"

definition ex_lined_selector :: node where
  "ex_lined_selector = SelectorExpr 71 (IdentNode (Ident 72 126)) (Ident 73 128)"

definition ex_lined_assign :: node where
  "ex_lined_assign = AssignStmt 74 [IdentNode (Ident 75 122)] (OtherToken ''='') [ex_lined_selector]"

definition ex_lined :: node where
  "ex_lined = Other 70 [ex_lined_assign]"

text \<open>What the type checker knows of these nodes, and the names of their identifiers.\<close>

definition ex_Info :: Info where
  "ex_Info =
     \<lparr>ObjectOf = (\<lambda>p.
        if p \<in> {5, 8, 16, 33} then Some (Var 1010)
        else if p = 24 then Some (Var 1020)
        else if p = 54 then Some (Var 1030)
        else if p \<in> {15, 46} then Some (Var 1040)
        else if p = 47 then Some (Var 1050)
        else if p = 63 then Some (Var 241)
        else if p = 73 then Some (Var 2220)
        else if p \<in> {4, 7, 14, 23, 32, 45, 53, 62, 72} then Some (Var 90)
        else if p \<in> {25, 55} then Some (OtherObject 0)
        else None),
      TypeOf = (\<lambda>p.
        if p \<in> {4, 7, 13, 15, 32, 44, 46} then Some (Pointer ex_Basic)
        else if p \<in> {23, 53} then Some ex_Basic
        else if p \<in> {14, 45} then Some (Pointer ex_Parent)
        else if p = 62 then Some ex_Child
        else if p = 72 then Some ex_Lined
        else if p \<in> {3, 5, 6, 8, 12, 16, 31, 33, 61, 63, 71, 73} then Some (Basic ''string'')
        else if p \<in> {22, 24} then Some (Pointer (Basic ''string''))
        else if p \<in> {52, 54} then Some (Pointer (Basic ''int8''))
        else if p \<in> {25, 55} then Some (Basic ''untyped nil'')
        else if p \<in> {41, 42, 43, 47, 21, 51} then Some (Basic ''bool'')
        else None)\<rparr>"

definition ex_names :: "ptr \<Rightarrow> string" where
  "ex_names p =
     (if p \<in> {4, 14, 32} then ''a''
      else if p = 7 then ''b''
      else if p \<in> {23, 53} then ''c''
      else if p = 45 then ''p''
      else if p = 62 then ''h''
      else if p = 72 then ''d''
      else if p \<in> {5, 8, 16, 33, 63, 73} then ''Name''
      else if p \<in> {15, 46} then ''Child''
      else if p = 24 then ''Address''
      else if p = 54 then ''Small''
      else if p = 47 then ''Valid''
      else if p \<in> {25, 55} then ''nil''
      else if p \<in> {35, 48, 65, 75} then ''_''
      else [])"

definition ex_env :: env where
  "ex_env = \<lparr>lib = ex_lib, typesInfo = ex_Info, fset = ex_fset\<rparr>"

text \<open>\<^verbatim>\<open>main.go\<close> with the given statement as line 4, and the state before a check.\<close>

definition ex_main :: "string \<Rightarrow> string \<rightharpoonup> string" where
  "ex_main stmt f =
     (if f = ''main.go''
      then Some (''package src'' @ [CHR 0x0A, CHR 0x0A] @ ''func main() {'' @ [CHR 0x0A, CHR 0x09] @
                 stmt @ [CHR 0x0A] @ ''}'')
      else None)"

definition ex_world :: "string \<Rightarrow> state" where
  "ex_world stmt = \<lparr>Name = ex_names, lines = None, errors = [], disk = ex_main stmt\<rparr>"

definition ex_visitor :: "string \<Rightarrow> state" where
  "ex_visitor stmt = (ex_world stmt)\<lparr>lines := Some Map.empty\<rparr>"

definition ex_Checker :: Checker where
  "ex_Checker =
     \<lparr>Exclusions = \<lparr>TestFiles = False, GeneratedFiles = True\<rparr>, WriteGetters = False, Mod = []\<rparr>"

definition ex_package :: "node \<Rightarrow> packages_Package" where
  "ex_package root =
     \<lparr>ID = ''src'', Errors = [],
      Syntax = [\<lparr>Package = 1, Comments = [], File_node = root\<rparr>],
      TypesInfo = ex_Info, Fset = ex_fset\<rparr>"

definition ex_broken :: packages_Package where
  "ex_broken =
     \<lparr>ID = ''broken'', Errors = [''main.go:4:6: undefined: q''],
      Syntax = [\<lparr>Package = 1, Comments = [], File_node = ex_read\<rparr>],
      TypesInfo = ex_Info, Fset = ex_fset\<rparr>"

text \<open>
  Three violations. \<open>err_a\<close> is the one of \<^verbatim>\<open>_ = a.Name\<close> on line 4 of \<^verbatim>\<open>main.go\<close>, \<open>err_c\<close>
  one from line 3. \<open>err_b\<close> is the one of a later statement \<^verbatim>\<open>_ = a.Address\<close> that a
  \<^verbatim>\<open>//line main.go:4\<close> directive maps to the same file, line and column: the line text is
  read from line 4 of \<^verbatim>\<open>main.go\<close> again, the byte offset and the getter are its own.
\<close>

definition ex_pos :: Position where
  "ex_pos = \<lparr>Filename = ''main.go'', Offset = 127, Position.Line = 4, Column = 8\<rparr>"

definition ex_getter_pos :: Position where
  "ex_getter_pos =
     \<lparr>Filename = ''generated/basic.pb.go'', Offset = 101, Position.Line = 2, Column = 2\<rparr>"

definition err_a :: UnusedGetterError where
  "err_a = \<lparr>Pos = ex_pos, GetterPos = ex_getter_pos, Line = ''_ = a.Name'', FuncName = ''GetName()''\<rparr>"

definition err_b :: UnusedGetterError where
  "err_b =
     \<lparr>Pos = ex_pos\<lparr>Offset := 167\<rparr>,
      GetterPos = \<lparr>Filename = ''generated/basic.pb.go'', Offset = 201, Position.Line = 3, Column = 2\<rparr>,
      Line = ''_ = a.Name'', FuncName = ''GetAddress()''\<rparr>"

definition err_c :: UnusedGetterError where
  "err_c =
     \<lparr>Pos = \<lparr>Filename = ''main.go'', Offset = 87, Position.Line = 3, Column = 8\<rparr>,
      GetterPos = ex_getter_pos, Line = ''x := a.Name'', FuncName = ''GetName()''\<rparr>"

definition ex_lhs_src :: string where
  "ex_lhs_src = ''a.Name, b.Name = '' @ [CHR 0x22] @ ''x'' @ [CHR 0x22] @ '', '' @ [CHR 0x22] @ ''y'' @ [CHR 0x22]"

definition ex_nested_src :: string where
  "ex_nested_src = ''a.Child.Name = '' @ [CHR 0x22] @ ''hello'' @ [CHR 0x22]"

definition ex_child_violation :: UnusedGetterError where
  "ex_child_violation =
     \<lparr>Pos = \<lparr>Filename = ''main.go'', Offset = 123, Position.Line = 4, Column = 4\<rparr>,
      GetterPos = \<lparr>Filename = ''generated/basic.pb.go'', Offset = 401, Position.Line = 5, Column = 2\<rparr>,
      Line = ex_nested_src, FuncName = ''GetChild()''\<rparr>"

definition ex_read_src :: string where
  "ex_read_src = ''_ = a.Name''"




definition ex_name_violation :: UnusedGetterError where
  "ex_name_violation =
     \<lparr>Pos = \<lparr>Filename = ''main.go'', Offset = 127, Position.Line = 4, Column = 8\<rparr>,
      GetterPos = \<lparr>Filename = ''generated/basic.pb.go'', Offset = 101, Position.Line = 2, Column = 2\<rparr>,
      Line = ex_read_src, FuncName = ''GetName()''\<rparr>"

definition ex_nil_src :: string where
  "ex_nil_src = ''if c.Address == nil {''"

definition ex_small_src :: string where
  "ex_small_src = ''if c.Small == nil {''"

definition ex_small_violation :: UnusedGetterError where
  "ex_small_violation =
     \<lparr>Pos = \<lparr>Filename = ''main.go'', Offset = 126, Position.Line = 4, Column = 7\<rparr>,
      GetterPos = \<lparr>Filename = ''generated/basic.pb.go'', Offset = 301, Position.Line = 4, Column = 2\<rparr>,
      Line = ex_small_src, FuncName = ''GetSmall()''\<rparr>"

definition ex_unreadable :: state where
  "ex_unreadable = \<lparr>Name = ex_names, lines = Some Map.empty, errors = [], disk = Map.empty\<rparr>"

definition ex_short :: state where
  "ex_short =
     \<lparr>Name = ex_names, lines = Some [''main.go'' \<mapsto> [''package src'', ''func main() {}'']],
      errors = [], disk = Map.empty\<rparr>"

definition ex_paren_src :: string where
  "ex_paren_src = ''_ = !(p.Child.Valid)''"

section \<open>Properties\<close>

subsection \<open>The deduplicator\<close>

lemma byName_Less_key: "byName_Less a b \<longleftrightarrow> byName_key a < byName_key b"
  by (auto simp: byName_Less_def byName_key_def Let_def)

lemma remdups_adj_snoc:
  "remdups_adj (ys @ [x]) = (if ys = [] \<or> last ys \<noteq> x then remdups_adj ys @ [x] else remdups_adj ys)"
  by (induction ys rule: remdups_adj.induct) auto

lemma remdups_adj_take_Suc:
  assumes "i < length xs"
  shows "remdups_adj (take (Suc i) xs) =
           (if i = 0 \<or> xs ! i \<noteq> xs ! (i - 1) then remdups_adj (take i xs) @ [xs ! i]
            else remdups_adj (take i xs))"
proof -
  have "take (Suc i) xs = take i xs @ [xs ! i]"
    using assms by (simp add: take_Suc_conv_app_nth)
  moreover have "last (take i xs) = xs ! (i - 1)" if "0 < i"
  proof -
    have "take i xs \<noteq> []" and "length (take i xs) = i"
      using assms that by auto
    then show ?thesis
      using that by (simp add: last_conv_nth del: length_take)
  qed
  ultimately show ?thesis
    using assms by (auto simp: remdups_adj_snoc)
qed

lemma compact_loop_inv:
  "k \<le> i \<Longrightarrow> i \<le> length orig \<Longrightarrow> length result = length orig \<Longrightarrow>
   (\<forall>j. i - 1 \<le> j \<and> j < length orig \<longrightarrow> result ! j = orig ! j) \<Longrightarrow>
   take k result = remdups_adj (take i orig) \<Longrightarrow>
   compact_loop result k i = remdups_adj orig"
proof (induction result k i rule: compact_loop.induct)
  case (1 result k i)
  show ?case
  proof (cases "i < length result")
    case False
    with 1 show ?thesis by (subst compact_loop.simps) simp
  next
    case True
    then have i: "i < length orig" using 1 by simp
    have ri: "result ! i = orig ! i" using 1(6) i by simp
    have rp: "0 < i \<Longrightarrow> result ! (i - 1) = orig ! (i - 1)" using 1(6) i by simp
    show ?thesis
    proof (cases "i = 0 \<or> result ! i \<noteq> result ! (i - 1)")
      case keep: True
      have a: "take (Suc k) (result[k := result ! i]) = remdups_adj (take (Suc i) orig)"
      proof -
        have "k < length result" using 1(3) True by simp
        then have "take (Suc k) (result[k := result ! i]) = take k result @ [result ! i]"
          by (simp add: take_Suc_conv_app_nth)
        then show ?thesis using keep ri rp 1(7) remdups_adj_take_Suc[OF i] by auto
      qed
      have b: "\<forall>j. Suc i - 1 \<le> j \<and> j < length orig \<longrightarrow> result[k := result ! i] ! j = orig ! j"
        using 1(3,5,6) ri i by (auto simp: nth_list_update)
      have "compact_loop (result[k := result ! i]) (Suc k) (Suc i) = remdups_adj orig"
        using 1(1)[OF True refl keep _ _ _ b a] 1(3,4,5) i by simp
      then show ?thesis using True keep
        by (subst compact_loop.simps) (simp add: Let_def)
    next
      case skip: False
      have a: "take k result = remdups_adj (take (Suc i) orig)"
        using skip ri rp 1(7) remdups_adj_take_Suc[OF i] by auto
      have b: "\<forall>j. Suc i - 1 \<le> j \<and> j < length orig \<longrightarrow> result ! j = orig ! j"
        using 1(6) by auto
      have "compact_loop result k (Suc i) = remdups_adj orig"
        using 1(2)[OF True refl skip _ _ _ b a] 1(3,4,5) i by simp
      then show ?thesis using True skip
        by (subst compact_loop.simps) (simp add: Let_def)
    qed
  qed
qed

lemma compact_loop_remdups_adj: "compact_loop xs 0 0 = remdups_adj xs"
  by (rule compact_loop_inv) auto


lemma sorted_wrt_Less_key:
  "sorted_wrt (\<lambda>a b. \<not> byName_Less b a) xs \<longleftrightarrow> sorted (map byName_key xs)"
  by (simp add: sorted_map byName_Less_key not_less)

lemma sorted_wrt_remdups_adj: "sorted_wrt P xs \<Longrightarrow> sorted_wrt P (remdups_adj xs)"
  by (induction xs rule: remdups_adj.induct) auto


lemma Unique_eq: "UnusedGetterError (Unique srt r) = remdups_adj (srt (UnusedGetterError r))"
  by (simp add: Unique_def compact_loop_remdups_adj)

lemma strict_keys:
  assumes "sorted (map byName_key xs)" "distinct_adj xs" "key_fixes_record xs"
  shows "sorted_wrt (\<lambda>a b. byName_key a < byName_key b) xs"
  using assms
proof (induction xs rule: induct_list012)
  case (3 x y zs)
  have xy: "byName_key x < byName_key y"
    using 3(3,4,5) by (auto simp: key_fixes_record_def less_le)
  have rest: "sorted_wrt (\<lambda>a b. byName_key a < byName_key b) (y # zs)"
    using 3(2)[OF _ _ ] 3(3,4,5) by (auto simp: key_fixes_record_def)
  have "\<forall>z \<in> set zs. byName_key y < byName_key z"
    using rest by simp
  then show ?case using xy rest by (auto intro: less_trans)
qed (auto)

lemma bubble_mset: "mset (bubble x ys) = add_mset x (mset ys)"
  by (induction ys) auto

lemma bubble_sorted:
  "sorted_wrt (\<lambda>a b. byName_key b \<le> byName_key a) ys \<Longrightarrow>
   sorted_wrt (\<lambda>a b. byName_key b \<le> byName_key a) (bubble x ys)"
proof (induction ys)
  case (Cons y ys)
  have "set (bubble x ys) = insert x (set ys)"
    using bubble_mset[of x ys] by (metis set_mset_add_mset_insert set_mset_mset)
  then show ?case using Cons by (auto simp: byName_Less_key)
qed simp

lemma foldl_bubble:
  "mset (foldl (\<lambda>acc x. bubble x acc) acc xs) = mset acc + mset xs \<and>
   (sorted_wrt (\<lambda>a b. byName_key b \<le> byName_key a) acc \<longrightarrow>
    sorted_wrt (\<lambda>a b. byName_key b \<le> byName_key a) (foldl (\<lambda>acc x. bubble x acc) acc xs))"
  by (induction xs arbitrary: acc) (auto simp: bubble_mset bubble_sorted)

lemma insertionSort_sorts: "sorts_by_Less insertionSort"
proof -
  have "sorted_wrt (\<lambda>a b. \<not> byName_Less b a) (insertionSort xs)" for xs
  proof -
    have "sorted_wrt (\<lambda>a b. byName_key b \<le> byName_key a) (foldl (\<lambda>acc x. bubble x acc) [] xs)"
      using foldl_bubble[of "[]" xs] by simp
    then show ?thesis
      by (simp add: insertionSort_def sorted_wrt_rev byName_Less_key not_less)
  qed
  moreover have "mset (insertionSort xs) = mset xs" for xs
    using foldl_bubble[of "[]" xs] by (simp add: insertionSort_def)
  ultimately show ?thesis by (simp add: sorts_by_Less_def)
qed



lemma Unique_sorted:
  assumes "sorts_by_Less srt"
  shows "sorted (map byName_key (UnusedGetterError (Unique srt R)))"
  using assms
  by (simp add: Unique_eq sorts_by_Less_def sorted_wrt_Less_key[symmetric] sorted_wrt_remdups_adj)

lemma Unique_set:
  assumes "sorts_by_Less srt"
  shows "set (UnusedGetterError (Unique srt R)) = set (UnusedGetterError R)"
  using assms by (metis Unique_eq sorts_by_Less_def set_mset_mset remdups_adj_set)

lemma Unique_strict:
  assumes "sorts_by_Less srt" "key_fixes_record (UnusedGetterError R)"
  shows "sorted_wrt (\<lambda>a b. byName_key a < byName_key b) (UnusedGetterError (Unique srt R))"
proof (rule strict_keys)
  show "sorted (map byName_key (UnusedGetterError (Unique srt R)))"
    by (rule Unique_sorted[OF assms(1)])
  show "distinct_adj (UnusedGetterError (Unique srt R))"
    by (simp add: Unique_eq)
  show "key_fixes_record (UnusedGetterError (Unique srt R))"
    using assms(2) Unique_set[OF assms(1), of R] by (simp add: key_fixes_record_def)
qed

lemma Unique_example:
  "UnusedGetterError (Unique insertionSort \<lparr>UnusedGetterError = [err_a, err_c, err_a]\<rparr>) = [err_c, err_a]"
  by (simp add: Unique_eq insertionSort_def byName_Less_def err_a_def err_c_def ex_pos_def)







text \<open>
  C4, as amended. For every result and every sort that returns its input rearranged in
  the order of \<open>Less\<close>: the deduplicated result is in ascending order of the key (file,
  line, column, source-line text); no violation in it equals its predecessor; and when
  the violations of the input that agree on the key are equal, no two violations of the
  deduplicated result share a key.
\<close>

theorem Unique_sorted_compact:
  assumes "sorts_by_Less sort_Sort"
  shows "sorted (map byName_key (UnusedGetterError (Unique sort_Sort R))) \<and>
         distinct_adj (UnusedGetterError (Unique sort_Sort R)) \<and>
         (key_fixes_record (UnusedGetterError R) \<longrightarrow>
            distinct (map byName_key (UnusedGetterError (Unique sort_Sort R))))"
proof -
  have "distinct (map byName_key xs)" if "sorted_wrt (\<lambda>a b. byName_key a < byName_key b) xs" for xs
    using that by (induction xs) auto
  then show ?thesis
    using Unique_sorted[OF assms] Unique_strict[OF assms] by (simp add: Unique_eq)
qed

theorem Unique_sorted_compact_witness:
  "sorts_by_Less insertionSort \<and>
   key_fixes_record [err_a, err_c, err_a] \<and>
   UnusedGetterError (Unique insertionSort \<lparr>UnusedGetterError = [err_a, err_c, err_a]\<rparr>)
     = [err_c, err_a] \<and>
   sorted (map byName_key (UnusedGetterError (Unique insertionSort \<lparr>UnusedGetterError = [err_a, err_c, err_a]\<rparr>))) \<and>
   distinct (map byName_key (UnusedGetterError (Unique insertionSort \<lparr>UnusedGetterError = [err_a, err_c, err_a]\<rparr>)))"
proof -
  have k: "key_fixes_record [err_a, err_c, err_a]"
    by (simp add: key_fixes_record_def byName_key_def err_a_def err_c_def ex_pos_def)
  show ?thesis
    using Unique_sorted_compact[OF insertionSort_sorts, of "\<lparr>UnusedGetterError = [err_a, err_c, err_a]\<rparr>"]
      insertionSort_sorts k Unique_example
    by simp
qed

text \<open>
  C4 as stated fails: two violations that agree on file, line, column and line text and
  differ in the accessor name both survive, under the insertion sort and under every
  other sort that orders by \<open>Less\<close>.
\<close>

theorem Unique_shared_key_counterexample:
  "UnusedGetterError (Unique insertionSort \<lparr>UnusedGetterError = [err_a, err_b]\<rparr>) = [err_a, err_b] \<and>
   byName_key err_a = byName_key err_b \<and> err_a \<noteq> err_b \<and>
   \<not> (\<exists>sort_Sort. sorts_by_Less sort_Sort \<and>
        distinct (map byName_key (UnusedGetterError (Unique sort_Sort \<lparr>UnusedGetterError = [err_a, err_b]\<rparr>))))"
proof -
  have ne: "err_a \<noteq> err_b" by (simp add: err_a_def err_b_def)
  have key: "byName_key err_a = byName_key err_b" by (simp add: byName_key_def err_a_def err_b_def)
  have run: "UnusedGetterError (Unique insertionSort \<lparr>UnusedGetterError = [err_a, err_b]\<rparr>) = [err_a, err_b]"
    by (simp add: Unique_eq insertionSort_def byName_Less_def err_a_def err_b_def)
  have "\<not> distinct (map byName_key (UnusedGetterError (Unique srt \<lparr>UnusedGetterError = [err_a, err_b]\<rparr>)))"
    if "sorts_by_Less srt" for srt
  proof
    assume d: "distinct (map byName_key (UnusedGetterError (Unique srt \<lparr>UnusedGetterError = [err_a, err_b]\<rparr>)))"
    have "set (UnusedGetterError (Unique srt \<lparr>UnusedGetterError = [err_a, err_b]\<rparr>)) = {err_a, err_b}"
      using Unique_set[OF that, of "\<lparr>UnusedGetterError = [err_a, err_b]\<rparr>"] by simp
    with d have "inj_on byName_key {err_a, err_b}" by (simp add: distinct_map)
    with key ne show False by (auto simp: inj_on_def)
  qed
  then show ?thesis using ne key run by blast
qed

subsection \<open>The traversal\<close>

lemma addErrorAtPosition_Inr:
  assumes "addErrorAtPosition e position ident getterPos v = Inr v'"
  shows "\<exists>cache' line. v' = v\<lparr>lines := Some cache',
            errors := errors v @ [\<lparr>Pos = FileSet_Position (fset e) position, GetterPos = getterPos,
                                   Line = line, FuncName = Name v (Ident_ptr ident)\<rparr>]\<rparr>"
  using assms
  by (auto simp: addErrorAtPosition_def Let_def split: option.splits if_splits)

lemma addErrorAtPosition_nil_map:
  "lines v = None \<Longrightarrow> addErrorAtPosition e position ident getterPos v = Inl NilMapAssignment"
  by (simp add: addErrorAtPosition_def)

lemma FindMethod_name: "FindMethod t g = Some m \<Longrightarrow> Func_Name m = g"
  by (induction t g rule: FindMethod.induct) (auto simp: find_Some_iff)

lemma Visit_SelectorExpr_flagged:
  assumes "Visit_SelectorExpr e parent n v = Inr v'" "v' \<noteq> v"
  obtains p X Sel declPos goPos ty m goMethodPos where
    "n = SelectorExpr p X Sel"
    "parent_exempts e parent n = Inr False"
    "ObjectOf (typesInfo e) (Ident_ptr Sel) = Some (Var declPos)"
    "File_Position (fset e) declPos = Inr goPos"
    "strings_Contains (Position_String goPos) ''.pb.go:''"
    "TypeOf (typesInfo e) (ptr_of X) = Some ty"
    "FindMethod ty (''Get'' @ Name v (Ident_ptr Sel)) = Some m"
    "File_Position (fset e) (Func_Pos m) = Inr goMethodPos"
    "addErrorAtPosition e (NamePos Sel) Sel goMethodPos
       (v\<lparr>Name := (Name v)(Ident_ptr Sel := ''Get'' @ Name v (Ident_ptr Sel) @ ''()'')\<rparr>) = Inr v'"
proof (cases n)
  case (SelectorExpr p X Sel)
  with assms that show ?thesis
    by (auto simp: Visit_SelectorExpr_def Let_def
             split: sum.splits bool.splits option.splits Object.splits if_splits)
qed (use assms in \<open>auto simp: Visit_SelectorExpr_def\<close>)

lemma Visit_SelectorExpr_cases:
  assumes "Visit_SelectorExpr e parent n v = Inr v'"
  shows "v' = v \<or>
         (\<exists>x cache' Sel p X. n = SelectorExpr p X Sel \<and> flagged_at e parent n x \<and>
            FuncName x = ''Get'' @ Name v (Ident_ptr Sel) @ ''()'' \<and>
            v' = v\<lparr>Name := (Name v)(Ident_ptr Sel := FuncName x), lines := Some cache',
                     errors := errors v @ [x]\<rparr>)"
proof (cases "v' = v")
  case False
  from Visit_SelectorExpr_flagged[OF assms False] obtain p X Sel declPos goPos ty m goMethodPos where
    n: "n = SelectorExpr p X Sel"
    and ex: "parent_exempts e parent n = Inr False"
    and ob: "ObjectOf (typesInfo e) (Ident_ptr Sel) = Some (Var declPos)"
    and gp: "File_Position (fset e) declPos = Inr goPos"
    and pb: "strings_Contains (Position_String goPos) ''.pb.go:''"
    and ty: "TypeOf (typesInfo e) (ptr_of X) = Some ty"
    and fm: "FindMethod ty (''Get'' @ Name v (Ident_ptr Sel)) = Some m"
    and mp: "File_Position (fset e) (Func_Pos m) = Inr goMethodPos"
    and ad: "addErrorAtPosition e (NamePos Sel) Sel goMethodPos
               (v\<lparr>Name := (Name v)(Ident_ptr Sel := ''Get'' @ Name v (Ident_ptr Sel) @ ''()'')\<rparr>) = Inr v'"
    by metis
  from addErrorAtPosition_Inr[OF ad] obtain cache' line where
    v': "v' = v\<lparr>Name := (Name v)(Ident_ptr Sel := ''Get'' @ Name v (Ident_ptr Sel) @ ''()''),
                lines := Some cache',
                errors := errors v @ [\<lparr>Pos = FileSet_Position (fset e) (NamePos Sel),
                   GetterPos = goMethodPos, Line = line,
                   FuncName = ''Get'' @ Name v (Ident_ptr Sel) @ ''()''\<rparr>]\<rparr>"
    by auto
  define x where "x = \<lparr>Pos = FileSet_Position (fset e) (NamePos Sel),
                   GetterPos = goMethodPos, Line = line,
                   FuncName = ''Get'' @ Name v (Ident_ptr Sel) @ ''()''\<rparr>"
  have nm: "Func_Name m = ''Get'' @ Name v (Ident_ptr Sel)"
    by (rule FindMethod_name[OF fm])
  have "flagged_at e parent n x"
    unfolding flagged_at_def
    apply (rule exI[of _ p], rule exI[of _ X], rule exI[of _ Sel], rule exI[of _ declPos],
           rule exI[of _ goPos], rule exI[of _ ty], rule exI[of _ m])
    using n ex ob gp pb ty fm mp nm by (simp add: x_def)
  moreover have "FuncName x = ''Get'' @ Name v (Ident_ptr Sel) @ ''()''"
    by (simp add: x_def)
  moreover have "v' = v\<lparr>Name := (Name v)(Ident_ptr Sel := FuncName x), lines := Some cache',
                     errors := errors v @ [x]\<rparr>"
    using v' by (simp add: x_def)
  ultimately show ?thesis using n by blast
qed simp

lemma Visit_SelectorExpr_nil_map:
  assumes "Visit_SelectorExpr e parent n v = Inr v'" "lines v = None"
  shows "v' = v"
proof (rule ccontr)
  assume "v' \<noteq> v"
  from Visit_SelectorExpr_flagged[OF assms(1) this] obtain Sel goMethodPos nm where
    "addErrorAtPosition e (NamePos Sel) Sel goMethodPos (v\<lparr>Name := nm\<rparr>) = Inr v'"
    by metis
  then show False
    using assms(2) by (simp add: addErrorAtPosition_nil_map)
qed

lemma rv_and_UnaryVisitor_record_nothing:
  "(lines v = None \<longrightarrow> Apply_visitor e parent n v = Inr v' \<longrightarrow> v' = v)"
  "(lines v = None \<longrightarrow> Apply_visitor_list e parent ns v = Inr v' \<longrightarrow> v' = v)"
  "(Apply_UnaryVisitor e n v = Inr v' \<longrightarrow> v' = v)"
  "(Apply_UnaryVisitor_list e ns v = Inr v' \<longrightarrow> v' = v)"
proof (induction e parent n v and e parent ns v and e n v and e ns v arbitrary: v' and v' and v' and v'
       rule: Apply_visitor_Apply_visitor_list_Apply_UnaryVisitor_Apply_UnaryVisitor_list.induct)
  case (1 e parent i v)
  show ?case by simp
next
  case (2 e parent p X Sel v)
  show ?case
  proof (intro impI)
    assume nil: "lines v = None" and run: "Apply_visitor e parent (SelectorExpr p X Sel) v = Inr v'"
    from run obtain v1 where
      a: "Visit_SelectorExpr e parent (SelectorExpr p X Sel) v = Inr v1"
      and b: "Apply_visitor e (Some (SelectorExpr p X Sel)) X v1 = Inr v'"
      by (auto split: sum.splits)
    have "v1 = v" using Visit_SelectorExpr_nil_map[OF a nil] .
    then show "v' = v" using 2[OF a] b nil by simp
  qed
next
  case (3 e parent p Key Value v)
  show ?case
  proof (intro impI)
    assume nil: "lines v = None" and run: "Apply_visitor e parent (KeyValueExpr p Key Value) v = Inr v'"
    from run obtain v1 v2 where
      a: "Apply_visitor e None Value v = Inr v1"
      and b: "Apply_visitor e (Some (KeyValueExpr p Key Value)) Key v1 = Inr v2"
      and c: "Apply_visitor e (Some (KeyValueExpr p Key Value)) Value v2 = Inr v'"
      by (auto split: sum.splits)
    have 1: "v1 = v" using 3(1) a nil by simp
    have 2: "v2 = v" using 3(2)[OF a] b nil 1 by simp
    show "v' = v" using 3(3)[OF a b] c nil 2 by simp
  qed
next
  case (4 e parent p op X v)
  show ?case
  proof (intro impI)
    assume nil: "lines v = None" and run: "Apply_visitor e parent (UnaryExpr p op X) v = Inr v'"
    from run obtain v1 where
      a: "(case X of SelectorExpr q XX Sel \<Rightarrow> Apply_visitor e None XX v
            | _ \<Rightarrow> Apply_UnaryVisitor e X v) = Inr v1"
      and b: "Apply_visitor e (Some (UnaryExpr p op X)) X v1 = Inr v'"
      by (auto split: sum.splits)
    have 1: "v1 = v"
      using a 4(1-8) nil by (cases X) simp_all
    show "v' = v" using 4(9)[OF a] b nil 1 by simp
  qed
next
  case (5 e parent p X op Y v)
  show ?case
  proof (intro impI)
    assume nil: "lines v = None" and run: "Apply_visitor e parent (BinaryExpr p X op Y) v = Inr v'"
    from run obtain v1 where
      a: "Apply_visitor e (Some (BinaryExpr p X op Y)) X v = Inr v1"
      and b: "Apply_visitor e (Some (BinaryExpr p X op Y)) Y v1 = Inr v'"
      by (auto split: sum.splits)
    have 1: "v1 = v" using 5(1) a nil by simp
    show "v' = v" using 5(2)[OF a] b nil 1 by simp
  qed
next
  case (6 e parent p X v)
  then show ?case by simp
next
  case (7 e parent p Lhs tok Rhs v)
  show ?case
  proof (intro impI)
    assume nil: "lines v = None" and run: "Apply_visitor e parent (AssignStmt p Lhs tok Rhs) v = Inr v'"
    from run obtain v1 where
      a: "Apply_visitor_list e (Some (AssignStmt p Lhs tok Rhs)) Lhs v = Inr v1"
      and b: "Apply_visitor_list e (Some (AssignStmt p Lhs tok Rhs)) Rhs v1 = Inr v'"
      by (auto split: sum.splits)
    have 1: "v1 = v" using 7(1) a nil by simp
    show "v' = v" using 7(2)[OF a] b nil 1 by simp
  qed
next
  case (8 e parent p children v)
  then show ?case by simp
next
  case (9 e parent v)
  show ?case by simp
next
  case (10 e parent n ns v)
  show ?case
  proof (intro impI)
    assume nil: "lines v = None" and run: "Apply_visitor_list e parent (n # ns) v = Inr v'"
    from run obtain v1 where
      a: "Apply_visitor e parent n v = Inr v1"
      and b: "Apply_visitor_list e parent ns v1 = Inr v'"
      by (auto split: sum.splits)
    have 1: "v1 = v" using 10(1) a nil by simp
    show "v' = v" using 10(2)[OF a] b nil 1 by simp
  qed
next
  case (11 e i v)
  show ?case by simp
next
  case (12 e p X v)
  show ?case
  proof (intro impI)
    assume run: "Apply_UnaryVisitor e (ParenExpr p X) v = Inr v'"
    let ?s1 = "(case X of
              SelectorExpr q XX Sel \<Rightarrow>
                (case Apply_visitor e None XX (v\<lparr>lines := None, errors := []\<rparr>) of
                   Inl err \<Rightarrow> Inl err
                 | Inr rv \<Rightarrow> Inr (v\<lparr>Name := Name rv\<rparr>))
            | _ \<Rightarrow> Inr v)"
    from run obtain v1 v2 where
      a: "?s1 = Inr v1"
      and b: "(case X of ParenExpr q XX \<Rightarrow> Apply_UnaryVisitor e XX v1 | _ \<Rightarrow> Inr v1) = Inr v2"
      and c: "Apply_UnaryVisitor e X v2 = Inr v'"
      by (auto split: sum.splits)
    have 1: "v1 = v"
    proof (cases X)
      case (SelectorExpr q XX Sel)
      with a obtain rv where r: "Apply_visitor e None XX (v\<lparr>lines := None, errors := []\<rparr>) = Inr rv"
        and v1: "v1 = v\<lparr>Name := Name rv\<rparr>"
        by (auto split: sum.splits)
      have "rv = v\<lparr>lines := None, errors := []\<rparr>"
        using 12(1)[OF SelectorExpr] r by simp
      then show ?thesis using v1 by simp
    qed (use a in auto)
    have 2: "v2 = v1"
    proof (cases X)
      case (ParenExpr q XX)
      then show ?thesis using 12(2)[OF a ParenExpr] b by simp
    qed (use b in auto)
    show "v' = v" using 12(3)[OF a b] c 1 2 by simp
  qed
next
  case (13 e p X Sel v)
  show ?case
  proof (intro impI)
    assume run: "Apply_UnaryVisitor e (SelectorExpr p X Sel) v = Inr v'"
    from run obtain v1 where
      a: "Apply_UnaryVisitor e X v = Inr v1" and b: "Apply_UnaryVisitor e X v1 = Inr v'"
      by (auto split: sum.splits)
    have 1: "v1 = v" using 13(1) a by simp
    show "v' = v" using 13(2)[OF a] b 1 by simp
  qed
next
  case (14 e p Key Value v)
  show ?case
  proof (intro impI)
    assume run: "Apply_UnaryVisitor e (KeyValueExpr p Key Value) v = Inr v'"
    from run obtain v1 where
      a: "Apply_UnaryVisitor e Key v = Inr v1" and b: "Apply_UnaryVisitor e Value v1 = Inr v'"
      by (auto split: sum.splits)
    have 1: "v1 = v" using 14(1) a by simp
    show "v' = v" using 14(2)[OF a] b 1 by simp
  qed
next
  case (15 e p op X v)
  then show ?case by simp
next
  case (16 e p X op Y v)
  show ?case
  proof (intro impI)
    assume run: "Apply_UnaryVisitor e (BinaryExpr p X op Y) v = Inr v'"
    from run obtain v1 where
      a: "Apply_UnaryVisitor e X v = Inr v1" and b: "Apply_UnaryVisitor e Y v1 = Inr v'"
      by (auto split: sum.splits)
    have 1: "v1 = v" using 16(1) a by simp
    show "v' = v" using 16(2)[OF a] b 1 by simp
  qed
next
  case (17 e p Lhs tok Rhs v)
  show ?case
  proof (intro impI)
    assume run: "Apply_UnaryVisitor e (AssignStmt p Lhs tok Rhs) v = Inr v'"
    from run obtain v1 where
      a: "Apply_UnaryVisitor_list e Lhs v = Inr v1" and b: "Apply_UnaryVisitor_list e Rhs v1 = Inr v'"
      by (auto split: sum.splits)
    have 1: "v1 = v" using 17(1) a by simp
    show "v' = v" using 17(2)[OF a] b 1 by simp
  qed
next
  case (18 e p children v)
  then show ?case by simp
next
  case (19 e v)
  show ?case by simp
next
  case (20 e n ns v)
  show ?case
  proof (intro impI)
    assume run: "Apply_UnaryVisitor_list e (n # ns) v = Inr v'"
    from run obtain v1 where
      a: "Apply_UnaryVisitor e n v = Inr v1" and b: "Apply_UnaryVisitor_list e ns v1 = Inr v'"
      by (auto split: sum.splits)
    have 1: "v1 = v" using 20(1) a by simp
    show "v' = v" using 20(2)[OF a] b 1 by simp
  qed
qed

lemma Apply_UnaryVisitor_same: "Apply_UnaryVisitor e n v = Inr v' \<Longrightarrow> v' = v"
  using rv_and_UnaryVisitor_record_nothing(3) by blast

lemma Apply_visitor_rule_aux:
  fixes Rel :: "(node option \<times> node) set \<Rightarrow> state \<Rightarrow> state \<Rightarrow> bool"
  assumes refl: "\<And>S v. Rel S v v"
    and trans: "\<And>S v v1 v2. Rel S v v1 \<Longrightarrow> Rel S v1 v2 \<Longrightarrow> Rel S v v2"
    and mono: "\<And>S S' v v'. S \<subseteq> S' \<Longrightarrow> Rel S v v' \<Longrightarrow> Rel S' v v'"
    and step: "\<And>parent p X Sel v v'.
        Visit_SelectorExpr e parent (SelectorExpr p X Sel) v = Inr v' \<Longrightarrow>
        Rel {(parent, SelectorExpr p X Sel)} v v'"
    and root: "\<And>q n v v'. transparent_parent q \<Longrightarrow> Rel (occurrences None n) v v' \<Longrightarrow>
        Rel (occurrences (Some q) n) v v'"
  shows "e' = e \<longrightarrow> (\<forall>v'. Apply_visitor e' parent n v = Inr v' \<longrightarrow> Rel (occurrences parent n) v v')"
    and "e' = e \<longrightarrow> (\<forall>v'. Apply_visitor_list e' parent ns v = Inr v' \<longrightarrow> Rel (below_list parent ns) v v')"
    and "Apply_UnaryVisitor e' n v = Inr v' \<longrightarrow> True"
    and "Apply_UnaryVisitor_list e' ns v = Inr v' \<longrightarrow> True"
proof (induction e' parent n v and e' parent ns v and e' n v and e' ns v
       rule: Apply_visitor_Apply_visitor_list_Apply_UnaryVisitor_Apply_UnaryVisitor_list.induct)
  case (1 e' parent i v)
  show ?case by (simp add: refl)
next
  case (2 e' parent p X Sel v)
  show ?case
  proof (intro impI allI)
    fix v' assume e: "e' = e" and run: "Apply_visitor e' parent (SelectorExpr p X Sel) v = Inr v'"
    let ?n = "SelectorExpr p X Sel"
    from run obtain v1 where
      a: "Visit_SelectorExpr e' parent ?n v = Inr v1"
      and b: "Apply_visitor e' (Some ?n) X v1 = Inr v'"
      by (auto split: sum.splits)
    have "Rel {(parent, ?n)} v v1" using step a e by simp
    then have 1: "Rel (occurrences parent ?n) v v1"
      by (rule mono[rotated]) (simp add: occurrences_def)
    have "Rel (occurrences (Some ?n) X) v1 v'" using 2[OF a] b e by simp
    then have 2: "Rel (occurrences parent ?n) v1 v'"
      by (rule mono[rotated]) (auto simp: occurrences_def)
    show "Rel (occurrences parent ?n) v v'" using trans[OF 1 2] .
  qed
next
  case (3 e' parent p Key Value v)
  show ?case
  proof (intro impI allI)
    fix v' assume e: "e' = e" and run: "Apply_visitor e' parent (KeyValueExpr p Key Value) v = Inr v'"
    let ?n = "KeyValueExpr p Key Value"
    from run obtain v1 v2 where
      a: "Apply_visitor e' None Value v = Inr v1"
      and b: "Apply_visitor e' (Some ?n) Key v1 = Inr v2"
      and c: "Apply_visitor e' (Some ?n) Value v2 = Inr v'"
      by (auto split: sum.splits)
    have "Rel (occurrences None Value) v v1" using 3(1) a e by simp
    then have "Rel (occurrences (Some ?n) Value) v v1"
      by (rule root[rotated]) (simp add: transparent_parent_def)
    then have 1: "Rel (occurrences parent ?n) v v1"
      by (rule mono[rotated]) (auto simp: occurrences_def)
    have "Rel (occurrences (Some ?n) Key) v1 v2" using 3(2)[OF a] b e by simp
    then have 2: "Rel (occurrences parent ?n) v1 v2"
      by (rule mono[rotated]) (auto simp: occurrences_def)
    have "Rel (occurrences (Some ?n) Value) v2 v'" using 3(3)[OF a b] c e by simp
    then have 3: "Rel (occurrences parent ?n) v2 v'"
      by (rule mono[rotated]) (auto simp: occurrences_def)
    show "Rel (occurrences parent ?n) v v'" using trans[OF trans[OF 1 2] 3] .
  qed
next
  case (4 e' parent p op X v)
  show ?case
  proof (intro impI allI)
    fix v' assume e: "e' = e" and run: "Apply_visitor e' parent (UnaryExpr p op X) v = Inr v'"
    let ?n = "UnaryExpr p op X"
    from run obtain v1 where
      a: "(case X of SelectorExpr q XX Sel \<Rightarrow> Apply_visitor e' None XX v
            | _ \<Rightarrow> Apply_UnaryVisitor e' X v) = Inr v1"
      and b: "Apply_visitor e' (Some ?n) X v1 = Inr v'"
      by (auto split: sum.splits)
    have 1: "Rel (occurrences parent ?n) v v1"
    proof (cases "\<exists>q XX Sel. X = SelectorExpr q XX Sel")
      case True
      then obtain q XX Sel where X: "X = SelectorExpr q XX Sel" by blast
      then have "Rel (occurrences None XX) v v1" using 4(2)[OF X] a e by simp
      then have "Rel (occurrences (Some X) XX) v v1"
        by (rule root[rotated]) (simp add: transparent_parent_def X)
      then show ?thesis
        by (rule mono[rotated]) (auto simp: occurrences_def X)
    next
      case False
      then have "Apply_UnaryVisitor e' X v = Inr v1"
        using a by (cases X) auto
      then have "v1 = v" by (rule Apply_UnaryVisitor_same)
      then show ?thesis by (simp add: refl)
    qed
    have "Rel (occurrences (Some ?n) X) v1 v'" using 4(9)[OF a] b e by simp
    then have 2: "Rel (occurrences parent ?n) v1 v'"
      by (rule mono[rotated]) (auto simp: occurrences_def)
    show "Rel (occurrences parent ?n) v v'" using trans[OF 1 2] .
  qed
next
  case (5 e' parent p X op Y v)
  show ?case
  proof (intro impI allI)
    fix v' assume e: "e' = e" and run: "Apply_visitor e' parent (BinaryExpr p X op Y) v = Inr v'"
    let ?n = "BinaryExpr p X op Y"
    from run obtain v1 where
      a: "Apply_visitor e' (Some ?n) X v = Inr v1"
      and b: "Apply_visitor e' (Some ?n) Y v1 = Inr v'"
      by (auto split: sum.splits)
    have "Rel (occurrences (Some ?n) X) v v1" using 5(1) a e by simp
    then have 1: "Rel (occurrences parent ?n) v v1"
      by (rule mono[rotated]) (auto simp: occurrences_def)
    have "Rel (occurrences (Some ?n) Y) v1 v'" using 5(2)[OF a] b e by simp
    then have 2: "Rel (occurrences parent ?n) v1 v'"
      by (rule mono[rotated]) (auto simp: occurrences_def)
    show "Rel (occurrences parent ?n) v v'" using trans[OF 1 2] .
  qed
next
  case (6 e' parent p X v)
  show ?case
  proof (intro impI allI)
    fix v' assume e: "e' = e" and run: "Apply_visitor e' parent (ParenExpr p X) v = Inr v'"
    then have "Rel (occurrences (Some (ParenExpr p X)) X) v v'" using 6 by simp
    then show "Rel (occurrences parent (ParenExpr p X)) v v'"
      by (rule mono[rotated]) (auto simp: occurrences_def)
  qed
next
  case (7 e' parent p Lhs tok Rhs v)
  show ?case
  proof (intro impI allI)
    fix v' assume e: "e' = e" and run: "Apply_visitor e' parent (AssignStmt p Lhs tok Rhs) v = Inr v'"
    let ?n = "AssignStmt p Lhs tok Rhs"
    from run obtain v1 where
      a: "Apply_visitor_list e' (Some ?n) Lhs v = Inr v1"
      and b: "Apply_visitor_list e' (Some ?n) Rhs v1 = Inr v'"
      by (auto split: sum.splits)
    have "Rel (below_list (Some ?n) Lhs) v v1" using 7(1) a e by simp
    then have 1: "Rel (occurrences parent ?n) v v1"
      by (rule mono[rotated]) (auto simp: occurrences_def)
    have "Rel (below_list (Some ?n) Rhs) v1 v'" using 7(2)[OF a] b e by simp
    then have 2: "Rel (occurrences parent ?n) v1 v'"
      by (rule mono[rotated]) (auto simp: occurrences_def)
    show "Rel (occurrences parent ?n) v v'" using trans[OF 1 2] .
  qed
next
  case (8 e' parent p children v)
  show ?case
  proof (intro impI allI)
    fix v' assume e: "e' = e" and run: "Apply_visitor e' parent (Other p children) v = Inr v'"
    then have "Rel (below_list (Some (Other p children)) children) v v'" using 8 by simp
    then show "Rel (occurrences parent (Other p children)) v v'"
      by (rule mono[rotated]) (auto simp: occurrences_def)
  qed
next
  case (9 e' parent v)
  show ?case by (simp add: refl)
next
  case (10 e' parent n ns v)
  show ?case
  proof (intro impI allI)
    fix v' assume e: "e' = e" and run: "Apply_visitor_list e' parent (n # ns) v = Inr v'"
    from run obtain v1 where
      a: "Apply_visitor e' parent n v = Inr v1"
      and b: "Apply_visitor_list e' parent ns v1 = Inr v'"
      by (auto split: sum.splits)
    have "Rel (occurrences parent n) v v1" using 10(1) a e by simp
    then have 1: "Rel (below_list parent (n # ns)) v v1"
      by (rule mono[rotated]) (auto simp: occurrences_def)
    have "Rel (below_list parent ns) v1 v'" using 10(2)[OF a] b e by simp
    then have 2: "Rel (below_list parent (n # ns)) v1 v'"
      by (rule mono[rotated]) auto
    show "Rel (below_list parent (n # ns)) v v'" using trans[OF 1 2] .
  qed
qed simp_all

lemma Apply_visitor_rule:
  fixes Rel :: "(node option \<times> node) set \<Rightarrow> state \<Rightarrow> state \<Rightarrow> bool"
  assumes "\<And>S v. Rel S v v"
    and "\<And>S v v1 v2. Rel S v v1 \<Longrightarrow> Rel S v1 v2 \<Longrightarrow> Rel S v v2"
    and "\<And>S S' v v'. S \<subseteq> S' \<Longrightarrow> Rel S v v' \<Longrightarrow> Rel S' v v'"
    and "\<And>parent p X Sel v v'.
        Visit_SelectorExpr e parent (SelectorExpr p X Sel) v = Inr v' \<Longrightarrow>
        Rel {(parent, SelectorExpr p X Sel)} v v'"
    and "\<And>q n v v'. transparent_parent q \<Longrightarrow> Rel (occurrences None n) v v' \<Longrightarrow>
        Rel (occurrences (Some q) n) v v'"
    and "Apply_visitor e parent n v = Inr v'"
  shows "Rel (occurrences parent n) v v'"
proof -
  have "e = e \<longrightarrow> (\<forall>v'. Apply_visitor e parent n v = Inr v' \<longrightarrow> Rel (occurrences parent n) v v')"
  proof (rule Apply_visitor_rule_aux(1))
    show "\<And>S v. Rel S v v" by (rule assms(1))
    show "\<And>S v v1 v2. Rel S v v1 \<Longrightarrow> Rel S v1 v2 \<Longrightarrow> Rel S v v2" by (rule assms(2))
    show "\<And>S S' v v'. S \<subseteq> S' \<Longrightarrow> Rel S v v' \<Longrightarrow> Rel S' v v'" by (rule assms(3))
    show "\<And>parent p X Sel v v'.
        Visit_SelectorExpr e parent (SelectorExpr p X Sel) v = Inr v' \<Longrightarrow>
        Rel {(parent, SelectorExpr p X Sel)} v v'" by (rule assms(4))
    show "\<And>q n v v'. transparent_parent q \<Longrightarrow> Rel (occurrences None n) v v' \<Longrightarrow>
        Rel (occurrences (Some q) n) v v'" by (rule assms(5))
  qed
  then show ?thesis using assms(6) by blast
qed

lemma parent_exempts_transparent:
  "transparent_parent q \<Longrightarrow> parent_exempts e (Some q) n = Inr False"
  by (cases q) (simp_all add: transparent_parent_def parent_exempts_def)

lemma parent_exempts_root: "parent_exempts e None n = Inr False"
  by (simp add: parent_exempts_def)

lemma flagged_at_transparent:
  "transparent_parent q \<Longrightarrow> flagged_at e None n x \<Longrightarrow> flagged_at e (Some q) n x"
  unfolding flagged_at_def
  by (simp add: parent_exempts_transparent parent_exempts_root)

lemma assignment_target_exempt:
  "assignment_target parent n \<Longrightarrow> parent_exempts e parent n = Inr True"
  by (auto simp: assignment_target_def parent_exempts_def split: option.splits node.splits)

lemma address_operand_exempt:
  "address_operand parent \<Longrightarrow> parent_exempts e parent n = Inr True"
  by (auto simp: address_operand_def parent_exempts_def split: option.splits node.splits)

lemma contains_set: "contains s x \<longleftrightarrow> x \<in> set s"
  by (induction s) auto

lemma nil_compared_exempt:
  "nil_compared_basic_pointer e parent n \<Longrightarrow> parent_exempts e parent n = Inr True"
  unfolding nil_compared_basic_pointer_def
  by (auto simp: parent_exempts_def contains_set)

lemma Visit_SelectorExpr_exempt:
  assumes "parent_exempts e parent n = Inr True"
  shows "Visit_SelectorExpr e parent n v = Inr v"
  using assms by (cases n) (simp_all add: Visit_SelectorExpr_def)

lemma not_exempt:
  assumes "parent_exempts e parent n = Inr False"
  shows "\<not> assignment_target parent n" "\<not> address_operand parent"
    "\<not> nil_compared_basic_pointer e parent n"
  using assms assignment_target_exempt[of parent n e] address_operand_exempt[of parent e n]
    nil_compared_exempt[of e parent n]
  by auto

lemma traced_refl: "traced e S v v"
  by (simp add: traced_def)

lemma traced_mono: "S \<subseteq> S' \<Longrightarrow> traced e S v v' \<Longrightarrow> traced e S' v v'"
  unfolding traced_def by (elim exE conjE) (rule exI, fastforce)

lemma traced_trans:
  assumes "traced e S v v1" "traced e S v1 v2"
  shows "traced e S v v2"
proof -
  from assms(1) obtain n1 where 1: "errors v1 = errors v @ n1" "disk v1 = disk v"
    "\<forall>x \<in> set n1. \<exists>(q, s) \<in> S. flagged_at e q s x"
    "\<forall>i. Name v1 i \<noteq> Name v i \<longrightarrow> (\<exists>x \<in> set n1. FuncName x = Name v1 i)"
    unfolding traced_def by blast
  from assms(2) obtain n2 where 2: "errors v2 = errors v1 @ n2" "disk v2 = disk v1"
    "\<forall>x \<in> set n2. \<exists>(q, s) \<in> S. flagged_at e q s x"
    "\<forall>i. Name v2 i \<noteq> Name v1 i \<longrightarrow> (\<exists>x \<in> set n2. FuncName x = Name v2 i)"
    unfolding traced_def by blast
  have "errors v2 = errors v @ (n1 @ n2)" using 1(1) 2(1) by simp
  moreover have "disk v2 = disk v" using 1(2) 2(2) by simp
  moreover have "\<forall>x \<in> set (n1 @ n2). \<exists>(q, s) \<in> S. flagged_at e q s x"
    using 1(3) 2(3) by auto
  moreover have "\<forall>i. Name v2 i \<noteq> Name v i \<longrightarrow> (\<exists>x \<in> set (n1 @ n2). FuncName x = Name v2 i)"
  proof (intro allI impI)
    fix i assume d: "Name v2 i \<noteq> Name v i"
    show "\<exists>x \<in> set (n1 @ n2). FuncName x = Name v2 i"
    proof (cases "Name v2 i = Name v1 i")
      case True
      then have "Name v1 i \<noteq> Name v i" using d by simp
      then show ?thesis using 1(4) True by auto
    next
      case False
      then show ?thesis using 2(4) by auto
    qed
  qed
  ultimately show ?thesis unfolding traced_def by blast
qed

lemma traced_step:
  assumes "Visit_SelectorExpr e parent (SelectorExpr p X Sel) v = Inr v'"
  shows "traced e {(parent, SelectorExpr p X Sel)} v v'"
  using Visit_SelectorExpr_cases[OF assms]
proof
  assume "v' = v" then show ?thesis by (simp add: traced_refl)
next
  assume "\<exists>x cache' Sel' p' X'. SelectorExpr p X Sel = SelectorExpr p' X' Sel' \<and>
            flagged_at e parent (SelectorExpr p X Sel) x \<and>
            FuncName x = ''Get'' @ Name v (Ident_ptr Sel') @ ''()'' \<and>
            v' = v\<lparr>Name := (Name v)(Ident_ptr Sel' := FuncName x), lines := Some cache',
                     errors := errors v @ [x]\<rparr>"
  then obtain x cache' where f: "flagged_at e parent (SelectorExpr p X Sel) x"
    and v': "v' = v\<lparr>Name := (Name v)(Ident_ptr Sel := FuncName x), lines := Some cache',
                     errors := errors v @ [x]\<rparr>"
    by auto
  show ?thesis
    unfolding traced_def
    by (rule exI[of _ "[x]"]) (use f v' in \<open>auto split: if_splits\<close>)
qed

lemma traced_root:
  assumes "transparent_parent q" "traced e (occurrences None n) v v'"
  shows "traced e (occurrences (Some q) n) v v'"
proof -
  have "\<exists>(q', s) \<in> occurrences (Some q) n. flagged_at e q' s x"
    if "\<exists>(q', s) \<in> occurrences None n. flagged_at e q' s x" for x
    using that flagged_at_transparent[OF assms(1), of e n x]
    by (auto simp: occurrences_def)
  then show ?thesis using assms(2) unfolding traced_def by (elim exE conjE) (rule exI, blast)
qed

lemma Apply_visitor_traced:
  assumes "Apply_visitor e parent n v = Inr v'"
  shows "traced e (occurrences parent n) v v'"
  by (rule Apply_visitor_rule[where Rel = "traced e", OF _ _ _ _ _ assms])
     (auto intro: traced_refl traced_trans traced_mono traced_step traced_root)

lemma traced_recorded:
  "traced e S v v' \<Longrightarrow> \<forall>x \<in> set (recorded v v'). \<exists>(q, s) \<in> S. flagged_at e q s x"
  unfolding traced_def recorded_def by auto

subsection \<open>Positions in generated files\<close>







subsection \<open>Exemptions, provenance and names of the recorded violations\<close>

lemmas ex_program_defs =
  ex_lhs_def ex_nested_def ex_nested_assign_def ex_nested_target_def ex_nil_def ex_nil_compare_def
  ex_nil_selector_def ex_read_def ex_read_assign_def ex_read_selector_def ex_paren_def ex_small_def
  ex_small_compare_def ex_small_selector_def ex_hand_def ex_hand_assign_def ex_hand_selector_def
  ex_lined_def ex_lined_assign_def ex_lined_selector_def

lemmas ex_world_defs =
  ex_env_def ex_Info_def ex_fset_def ex_lib_def ex_names_def ex_main_def ex_world_def
  ex_visitor_def ex_Basic_def ex_Parent_def ex_Child_def ex_Lined_def ex_trim_def ex_Checker_def
  ex_package_def

lemmas visit_defs =
  Visit_SelectorExpr_def parent_exempts_def File_Position_def FileSet_Position_def NoPos_def
  Position_String_def Itoa_def digits.simps addErrorAtPosition_def readfile_def Let_def
  basicPointerTypes_def

lemma ex_nested_run:
  "\<exists>v'. Apply_visitor ex_env None ex_nested (ex_visitor ex_nested_src) = Inr v' \<and>
        recorded (ex_visitor ex_nested_src) v' = [ex_child_violation]"
  by (simp add: ex_program_defs ex_world_defs visit_defs recorded_def ex_child_violation_def
        ex_nested_src_def)

lemma ex_lhs_run:
  "\<exists>w. CheckPackage ex_lib ex_Checker (ex_package ex_lhs) (ex_world ex_lhs_src) =
          Inr (\<lparr>UnusedGetterError = []\<rparr>, w)"
  by (simp add: CheckPackage_def shouldSkipFile_def ex_program_defs ex_world_defs visit_defs)

lemma ex_nested_target_is_target: "assignment_target (Some ex_nested_assign) ex_nested_target"
  by (simp add: assignment_target_def ex_nested_assign_def ex_nested_target_def)

text \<open>
  C1. A field access that is one of the left-hand sides of its parent assignment, or the
  operand of an address-of operator, is left alone by \<^verbatim>\<open>visitor.Visit\<close>: nothing is
  recorded, nothing renamed. Over a whole traversal, every violation recorded belongs to
  a selector of the tree that, under its parent in the tree, is neither.
\<close>

theorem exempt_selectors_not_recorded:
  "(assignment_target parent n \<or> address_operand parent \<longrightarrow>
      Visit_SelectorExpr e parent n u = Inr u) \<and>
   (Apply_visitor e parent0 root v = Inr v' \<longrightarrow>
      (\<forall>x \<in> set (recorded v v'). \<exists>(q, s) \<in> occurrences parent0 root.
          flagged_at e q s x \<and> \<not> assignment_target q s \<and> \<not> address_operand q))"
proof (intro conjI impI)
  assume "assignment_target parent n \<or> address_operand parent"
  then have "parent_exempts e parent n = Inr True"
    using assignment_target_exempt address_operand_exempt by blast
  then show "Visit_SelectorExpr e parent n u = Inr u"
    by (rule Visit_SelectorExpr_exempt)
next
  assume "Apply_visitor e parent0 root v = Inr v'"
  then have "traced e (occurrences parent0 root) v v'"
    by (rule Apply_visitor_traced)
  then have a: "\<forall>x \<in> set (recorded v v'). \<exists>(q, s) \<in> occurrences parent0 root. flagged_at e q s x"
    by (rule traced_recorded)
  have b: "\<not> assignment_target q s \<and> \<not> address_operand q" if "flagged_at e q s x" for q s x
    using that not_exempt[of e q s] unfolding flagged_at_def by blast
  show "\<forall>x \<in> set (recorded v v'). \<exists>(q, s) \<in> occurrences parent0 root.
          flagged_at e q s x \<and> \<not> assignment_target q s \<and> \<not> address_operand q"
  proof
    fix x assume "x \<in> set (recorded v v')"
    with a obtain q s where "(q, s) \<in> occurrences parent0 root" "flagged_at e q s x" by blast
    with b[of q s x] show "\<exists>(q, s) \<in> occurrences parent0 root.
          flagged_at e q s x \<and> \<not> assignment_target q s \<and> \<not> address_operand q"
      by blast
  qed
qed

theorem exempt_selectors_not_recorded_witness:
  "assignment_target (Some ex_nested_assign) ex_nested_target \<and>
   Visit_SelectorExpr ex_env (Some ex_nested_assign) ex_nested_target (ex_visitor ex_nested_src)
     = Inr (ex_visitor ex_nested_src) \<and>
   (\<exists>v'. Apply_visitor ex_env None ex_nested (ex_visitor ex_nested_src) = Inr v' \<and>
         recorded (ex_visitor ex_nested_src) v' = [ex_child_violation] \<and>
         (\<exists>(q, s) \<in> occurrences None ex_nested.
             flagged_at ex_env q s ex_child_violation \<and>
             \<not> assignment_target q s \<and> \<not> address_operand q)) \<and>
   (\<exists>w. CheckPackage ex_lib ex_Checker (ex_package ex_lhs) (ex_world ex_lhs_src) =
          Inr (\<lparr>UnusedGetterError = []\<rparr>, w))"
proof -
  from ex_nested_run obtain v' where
    run: "Apply_visitor ex_env None ex_nested (ex_visitor ex_nested_src) = Inr v'"
    and rec: "recorded (ex_visitor ex_nested_src) v' = [ex_child_violation]"
    by blast
  note thm1 = exempt_selectors_not_recorded[where parent = "Some ex_nested_assign"
      and n = ex_nested_target and e = ex_env and u = "ex_visitor ex_nested_src"
      and ?parent0.0 = None and root = ex_nested and v = "ex_visitor ex_nested_src" and v' = v']
  have 1: "Visit_SelectorExpr ex_env (Some ex_nested_assign) ex_nested_target (ex_visitor ex_nested_src)
     = Inr (ex_visitor ex_nested_src)"
    using thm1 ex_nested_target_is_target by blast
  have 2: "\<exists>(q, s) \<in> occurrences None ex_nested.
             flagged_at ex_env q s ex_child_violation \<and>
             \<not> assignment_target q s \<and> \<not> address_operand q"
    using thm1 run rec by simp
  show ?thesis
    using ex_nested_target_is_target 1 2 run rec ex_lhs_run by blast
qed

lemma traced_names_refl: "traced_names e N0 S v v"
  by (simp add: traced_names_def)

lemma traced_names_mono: "S \<subseteq> S' \<Longrightarrow> traced_names e N0 S v v' \<Longrightarrow> traced_names e N0 S' v v'"
  unfolding traced_names_def
  by (intro impI, elim impE, assumption, elim conjE exE, intro conjI, assumption, rule exI) fastforce

lemma traced_names_trans:
  assumes "traced_names e N0 S v v1" "traced_names e N0 S v1 v2"
  shows "traced_names e N0 S v v2"
  unfolding traced_names_def
proof (intro impI)
  assume 0: "renamed_or_same N0 v"
  with assms(1) obtain n1 where 1: "renamed_or_same N0 v1" "errors v1 = errors v @ n1"
    "\<forall>x \<in> set n1. \<exists>(q, s) \<in> S. \<exists>p X Sel. s = SelectorExpr p X Sel \<and> flagged_at e q s x \<and>
        FuncName x = ''Get'' @ N0 (Ident_ptr Sel) @ ''()''"
    unfolding traced_names_def by blast
  with assms(2) obtain n2 where 2: "renamed_or_same N0 v2" "errors v2 = errors v1 @ n2"
    "\<forall>x \<in> set n2. \<exists>(q, s) \<in> S. \<exists>p X Sel. s = SelectorExpr p X Sel \<and> flagged_at e q s x \<and>
        FuncName x = ''Get'' @ N0 (Ident_ptr Sel) @ ''()''"
    unfolding traced_names_def by blast
  have "errors v2 = errors v @ (n1 @ n2)" using 1(2) 2(2) by simp
  moreover have "\<forall>x \<in> set (n1 @ n2). \<exists>(q, s) \<in> S. \<exists>p X Sel. s = SelectorExpr p X Sel \<and>
        flagged_at e q s x \<and> FuncName x = ''Get'' @ N0 (Ident_ptr Sel) @ ''()''"
    using 1(3) 2(3) by auto
  ultimately show "renamed_or_same N0 v2 \<and>
    (\<exists>new. errors v2 = errors v @ new \<and>
       (\<forall>x \<in> set new. \<exists>(q, s) \<in> S. \<exists>p X Sel. s = SelectorExpr p X Sel \<and> flagged_at e q s x \<and>
           FuncName x = ''Get'' @ N0 (Ident_ptr Sel) @ ''()''))"
    using 2(1) by blast
qed

lemma FindMethod_scanned: "FindMethod t g = Some m \<Longrightarrow> m \<in> set (scanned_methods t)"
  by (induction t g rule: FindMethod.induct) (auto simp: scanned_methods_def find_Some_iff)

lemma traced_names_step:
  assumes ids: "methods_are_identifiers e"
    and run: "Visit_SelectorExpr e parent (SelectorExpr p X Sel) v = Inr v'"
  shows "traced_names e N0 {(parent, SelectorExpr p X Sel)} v v'"
  using Visit_SelectorExpr_cases[OF run]
proof
  assume "v' = v" then show ?thesis by (simp add: traced_names_refl)
next
  assume "\<exists>x cache' Sel' p' X'. SelectorExpr p X Sel = SelectorExpr p' X' Sel' \<and>
            flagged_at e parent (SelectorExpr p X Sel) x \<and>
            FuncName x = ''Get'' @ Name v (Ident_ptr Sel') @ ''()'' \<and>
            v' = v\<lparr>Name := (Name v)(Ident_ptr Sel' := FuncName x), lines := Some cache',
                     errors := errors v @ [x]\<rparr>"
  then obtain x cache' where f: "flagged_at e parent (SelectorExpr p X Sel) x"
    and fn: "FuncName x = ''Get'' @ Name v (Ident_ptr Sel) @ ''()''"
    and v': "v' = v\<lparr>Name := (Name v)(Ident_ptr Sel := FuncName x), lines := Some cache',
                     errors := errors v @ [x]\<rparr>"
    by auto
  from f obtain t m where ty: "TypeOf (typesInfo e) (ptr_of X) = Some t"
    and fm: "FindMethod t (Func_Name m) = Some m" and fx: "FuncName x = Func_Name m @ ''()''"
    unfolding flagged_at_def by auto
  have "Func_Name m = ''Get'' @ Name v (Ident_ptr Sel)" using fn fx by simp
  moreover have "CHR '')'' \<notin> set (Func_Name m)"
    using ids ty FindMethod_scanned[OF fm] unfolding methods_are_identifiers_def by blast
  ultimately have np: "CHR '')'' \<notin> set (Name v (Ident_ptr Sel))" by simp
  show ?thesis
    unfolding traced_names_def
  proof (intro impI conjI)
    assume inv: "renamed_or_same N0 v"
    have orig: "Name v (Ident_ptr Sel) = N0 (Ident_ptr Sel)"
    proof (rule ccontr)
      assume "Name v (Ident_ptr Sel) \<noteq> N0 (Ident_ptr Sel)"
      then have "Name v (Ident_ptr Sel) = ''Get'' @ N0 (Ident_ptr Sel) @ ''()''"
        using inv unfolding renamed_or_same_def by blast
      then show False using np by simp
    qed
    show "renamed_or_same N0 v'"
      using inv v' fn orig unfolding renamed_or_same_def by auto
    show "\<exists>new. errors v' = errors v @ new \<and>
           (\<forall>x \<in> set new. \<exists>(q, s) \<in> {(parent, SelectorExpr p X Sel)}. \<exists>p X Sel.
               s = SelectorExpr p X Sel \<and> flagged_at e q s x \<and>
               FuncName x = ''Get'' @ N0 (Ident_ptr Sel) @ ''()'')"
      by (rule exI[of _ "[x]"]) (use v' f fn orig in auto)
  qed
qed

lemma traced_names_root:
  assumes "transparent_parent q" "traced_names e N0 (occurrences None n) v v'"
  shows "traced_names e N0 (occurrences (Some q) n) v v'"
proof -
  have "\<exists>(q', s) \<in> occurrences (Some q) n. \<exists>p X Sel. s = SelectorExpr p X Sel \<and>
          flagged_at e q' s x \<and> FuncName x = ''Get'' @ N0 (Ident_ptr Sel) @ ''()''"
    if "\<exists>(q', s) \<in> occurrences None n. \<exists>p X Sel. s = SelectorExpr p X Sel \<and>
          flagged_at e q' s x \<and> FuncName x = ''Get'' @ N0 (Ident_ptr Sel) @ ''()''" for x
  proof -
    from that obtain q' s p X Sel where in_occ: "(q', s) \<in> occurrences None n"
      and s: "s = SelectorExpr p X Sel" and f: "flagged_at e q' s x"
      and fn: "FuncName x = ''Get'' @ N0 (Ident_ptr Sel) @ ''()''"
      by blast
    show ?thesis
    proof (cases "(q', s) = (None, n)")
      case True
      then have "flagged_at e (Some q) n x" using f flagged_at_transparent[OF assms(1)] by simp
      moreover have "(Some q, n) \<in> occurrences (Some q) n" by (simp add: occurrences_def)
      ultimately show ?thesis using s fn True by blast
    next
      case False
      then have "(q', s) \<in> occurrences (Some q) n" using in_occ by (auto simp: occurrences_def)
      then show ?thesis using s f fn by blast
    qed
  qed
  note conv = this
  show ?thesis
    unfolding traced_names_def
  proof (intro impI)
    assume "renamed_or_same N0 v"
    with assms(2) obtain new where r: "renamed_or_same N0 v'" and e: "errors v' = errors v @ new"
      and a: "\<forall>x \<in> set new. \<exists>(q', s) \<in> occurrences None n. \<exists>p X Sel. s = SelectorExpr p X Sel \<and>
          flagged_at e q' s x \<and> FuncName x = ''Get'' @ N0 (Ident_ptr Sel) @ ''()''"
      unfolding traced_names_def by blast
    have "\<forall>x \<in> set new. \<exists>(q', s) \<in> occurrences (Some q) n. \<exists>p X Sel. s = SelectorExpr p X Sel \<and>
          flagged_at e q' s x \<and> FuncName x = ''Get'' @ N0 (Ident_ptr Sel) @ ''()''"
    proof
      fix x assume "x \<in> set new"
      then have "\<exists>(q', s) \<in> occurrences None n. \<exists>p X Sel. s = SelectorExpr p X Sel \<and>
          flagged_at e q' s x \<and> FuncName x = ''Get'' @ N0 (Ident_ptr Sel) @ ''()''"
        using a by (rule bspec[rotated])
      then show "\<exists>(q', s) \<in> occurrences (Some q) n. \<exists>p X Sel. s = SelectorExpr p X Sel \<and>
          flagged_at e q' s x \<and> FuncName x = ''Get'' @ N0 (Ident_ptr Sel) @ ''()''"
        by (rule conv)
    qed
    then show "renamed_or_same N0 v' \<and>
      (\<exists>new. errors v' = errors v @ new \<and>
         (\<forall>x \<in> set new. \<exists>(q, s) \<in> occurrences (Some q) n. \<exists>p X Sel.
             s = SelectorExpr p X Sel \<and> flagged_at e q s x \<and>
             FuncName x = ''Get'' @ N0 (Ident_ptr Sel) @ ''()''))"
      using r e by (intro conjI exI[of _ new]) simp_all
  qed
qed

lemma Apply_visitor_traced_names:
  assumes "methods_are_identifiers e" "Apply_visitor e parent n v = Inr v'"
  shows "traced_names e N0 (occurrences parent n) v v'"
  by (rule Apply_visitor_rule[where Rel = "traced_names e N0", OF _ _ _ _ _ assms(2)])
     (auto intro: traced_names_refl traced_names_trans traced_names_mono
        traced_names_step[OF assms(1)] traced_names_root)
















lemma ex_nil_run:
  "\<exists>w. CheckPackage ex_lib ex_Checker (ex_package ex_nil) (ex_world ex_nil_src) =
          Inr (\<lparr>UnusedGetterError = []\<rparr>, w)"
  by (simp add: CheckPackage_def shouldSkipFile_def ex_program_defs ex_world_defs visit_defs)

lemma ex_nil_compared: "nil_compared_basic_pointer ex_env (Some ex_nil_compare) ex_nil_selector"
  unfolding nil_compared_basic_pointer_def
  by (simp add: ex_program_defs ex_world_defs basicPointerTypes_def)

text \<open>
  C6, as amended. A field access that is the left operand of \<^verbatim>\<open>== nil\<close> and whose field
  type prints as one of \<^verbatim>\<open>*string\<close>, \<^verbatim>\<open>*int\<close>, \<^verbatim>\<open>*bool\<close>, \<^verbatim>\<open>*int32\<close>, \<^verbatim>\<open>*int64\<close>,
  \<^verbatim>\<open>*float32\<close>, \<^verbatim>\<open>*float64\<close>, \<^verbatim>\<open>*uint32\<close>, \<^verbatim>\<open>*uint64\<close> is left alone by \<^verbatim>\<open>visitor.Visit\<close>;
  over a whole traversal, no violation recorded belongs to such a selector.
\<close>

theorem nil_compared_basic_pointer_not_recorded:
  "(nil_compared_basic_pointer e parent n \<longrightarrow> Visit_SelectorExpr e parent n u = Inr u) \<and>
   (Apply_visitor e parent0 root v = Inr v' \<longrightarrow>
      (\<forall>x \<in> set (recorded v v'). \<exists>(q, s) \<in> occurrences parent0 root.
          flagged_at e q s x \<and> \<not> nil_compared_basic_pointer e q s))"
proof (intro conjI impI)
  assume "nil_compared_basic_pointer e parent n"
  then have "parent_exempts e parent n = Inr True" by (rule nil_compared_exempt)
  then show "Visit_SelectorExpr e parent n u = Inr u" by (rule Visit_SelectorExpr_exempt)
next
  assume "Apply_visitor e parent0 root v = Inr v'"
  then have "traced e (occurrences parent0 root) v v'"
    by (rule Apply_visitor_traced)
  then have a: "\<forall>x \<in> set (recorded v v'). \<exists>(q, s) \<in> occurrences parent0 root. flagged_at e q s x"
    by (rule traced_recorded)
  have b: "\<not> nil_compared_basic_pointer e q s" if "flagged_at e q s x" for q s x
    using that not_exempt(3)[of e q s] unfolding flagged_at_def by blast
  show "\<forall>x \<in> set (recorded v v'). \<exists>(q, s) \<in> occurrences parent0 root.
          flagged_at e q s x \<and> \<not> nil_compared_basic_pointer e q s"
  proof
    fix x assume "x \<in> set (recorded v v')"
    with a obtain q s where "(q, s) \<in> occurrences parent0 root" "flagged_at e q s x" by blast
    with b[of q s x] show "\<exists>(q, s) \<in> occurrences parent0 root.
          flagged_at e q s x \<and> \<not> nil_compared_basic_pointer e q s"
      by blast
  qed
qed

theorem nil_compared_basic_pointer_not_recorded_witness:
  "nil_compared_basic_pointer ex_env (Some ex_nil_compare) ex_nil_selector \<and>
   Visit_SelectorExpr ex_env (Some ex_nil_compare) ex_nil_selector (ex_visitor ex_nil_src)
     = Inr (ex_visitor ex_nil_src) \<and>
   (\<exists>w. CheckPackage ex_lib ex_Checker (ex_package ex_nil) (ex_world ex_nil_src) =
          Inr (\<lparr>UnusedGetterError = []\<rparr>, w)) \<and>
   (\<exists>v'. Apply_visitor ex_env None ex_small (ex_visitor ex_small_src) = Inr v' \<and>
         recorded (ex_visitor ex_small_src) v' = [ex_small_violation] \<and>
         (\<exists>(q, s) \<in> occurrences None ex_small.
            flagged_at ex_env q s ex_small_violation \<and> \<not> nil_compared_basic_pointer ex_env q s))"
proof -
  have "\<exists>v'. Apply_visitor ex_env None ex_small (ex_visitor ex_small_src) = Inr v' \<and>
         recorded (ex_visitor ex_small_src) v' = [ex_small_violation]"
    by (simp add: ex_program_defs ex_world_defs visit_defs recorded_def ex_small_violation_def
        ex_small_src_def)
  then obtain v' where run: "Apply_visitor ex_env None ex_small (ex_visitor ex_small_src) = Inr v'"
    and rec: "recorded (ex_visitor ex_small_src) v' = [ex_small_violation]"
    by blast
  note thm1 = nil_compared_basic_pointer_not_recorded[where e = ex_env
      and parent = "Some ex_nil_compare" and n = ex_nil_selector and u = "ex_visitor ex_nil_src"
      and ?parent0.0 = None and root = ex_small and v = "ex_visitor ex_small_src" and v' = v']
  have 1: "Visit_SelectorExpr ex_env (Some ex_nil_compare) ex_nil_selector (ex_visitor ex_nil_src)
     = Inr (ex_visitor ex_nil_src)"
    using thm1 ex_nil_compared by blast
  have 2: "\<exists>(q, s) \<in> occurrences None ex_small.
            flagged_at ex_env q s ex_small_violation \<and> \<not> nil_compared_basic_pointer ex_env q s"
    using thm1 run rec by simp
  show ?thesis using ex_nil_compared 1 2 run rec ex_nil_run by blast
qed

text \<open>
  C6 as stated fails: \<^verbatim>\<open>Small\<close> has type \<^verbatim>\<open>*int8\<close>, a pointer to a primitive numeric type,
  and \<^verbatim>\<open>if c.Small == nil {}\<close> is reported, because \<^verbatim>\<open>*int8\<close> is not in the list that
  \<^verbatim>\<open>visitor.Visit\<close> compares with.
\<close>

theorem nil_compared_int8_pointer_counterexample:
  "TypeOf (typesInfo ex_env) 54 = Some (Pointer (Basic ''int8'')) \<and>
   pointer_to_primitive (Pointer (Basic ''int8'')) \<and>
   ex_small_compare = BinaryExpr 51 ex_small_selector EQL (IdentNode (Ident 55 136)) \<and>
   ex_small_selector = SelectorExpr 52 (IdentNode (Ident 53 125)) (Ident 54 127) \<and>
   TypeOf (typesInfo ex_env) 55 = Some (Basic ''untyped nil'') \<and>
   (\<exists>w. CheckPackage ex_lib ex_Checker (ex_package ex_small) (ex_world ex_small_src) =
          Inr (\<lparr>UnusedGetterError = [ex_small_violation]\<rparr>, w))"
  by (simp add: CheckPackage_def shouldSkipFile_def ex_program_defs ex_world_defs visit_defs
        pointer_to_primitive_def primitive_names_def ex_small_violation_def ex_small_src_def)

lemma ex_methods_are_identifiers: "methods_are_identifiers ex_env"
  unfolding methods_are_identifiers_def
  by (auto simp: ex_world_defs scanned_methods_def split: if_splits)

text \<open>
  C10. When \<^verbatim>\<open>visitor.Visit\<close> records a violation at a selector, the name it stores is
  \<^verbatim>\<open>Get\<close>, the name of the selected identifier at that moment, and \<^verbatim>\<open>()\<close>, which is also
  the identifier's new name. Over a whole traversal of a tree whose method names are Go
  identifiers, the name stored with every violation is \<^verbatim>\<open>Get\<close>, the name the selected
  identifier had before the traversal, and \<^verbatim>\<open>()\<close>.
\<close>

theorem FuncName_is_getter_call:
  "(Visit_SelectorExpr e parent (SelectorExpr p X Sel) u = Inr u' \<and> u' \<noteq> u \<longrightarrow>
      (\<exists>x. recorded u u' = [x] \<and>
           FuncName x = ''Get'' @ Name u (Ident_ptr Sel) @ ''()'' \<and>
           FuncName x \<noteq> Name u (Ident_ptr Sel) \<and>
           Name u' (Ident_ptr Sel) = FuncName x)) \<and>
   (methods_are_identifiers e \<and> Apply_visitor e parent0 root v = Inr v' \<longrightarrow>
      (\<forall>x \<in> set (recorded v v'). \<exists>(q, s) \<in> occurrences parent0 root. \<exists>p X Sel.
          s = SelectorExpr p X Sel \<and> flagged_at e q s x \<and>
          FuncName x = ''Get'' @ Name v (Ident_ptr Sel) @ ''()''))"
proof (intro conjI impI)
  assume a: "Visit_SelectorExpr e parent (SelectorExpr p X Sel) u = Inr u' \<and> u' \<noteq> u"
  then obtain x cache' where fn: "FuncName x = ''Get'' @ Name u (Ident_ptr Sel) @ ''()''"
    and v1: "u' = u\<lparr>Name := (Name u)(Ident_ptr Sel := FuncName x), lines := Some cache',
                     errors := errors u @ [x]\<rparr>"
    using Visit_SelectorExpr_cases[of e parent "SelectorExpr p X Sel" u u'] by auto
  have "recorded u u' = [x]" using v1 by (simp add: recorded_def)
  moreover have "FuncName x \<noteq> Name u (Ident_ptr Sel)" using fn by simp
  moreover have "Name u' (Ident_ptr Sel) = FuncName x" using v1 by simp
  ultimately show "\<exists>x. recorded u u' = [x] \<and>
           FuncName x = ''Get'' @ Name u (Ident_ptr Sel) @ ''()'' \<and>
           FuncName x \<noteq> Name u (Ident_ptr Sel) \<and>
           Name u' (Ident_ptr Sel) = FuncName x"
    using fn by blast
next
  assume a: "methods_are_identifiers e \<and> Apply_visitor e parent0 root v = Inr v'"
  then have "traced_names e (Name v) (occurrences parent0 root) v v'"
    using Apply_visitor_traced_names by blast
  moreover have "renamed_or_same (Name v) v" by (simp add: renamed_or_same_def)
  ultimately obtain new where "errors v' = errors v @ new"
    and "\<forall>x \<in> set new. \<exists>(q, s) \<in> occurrences parent0 root. \<exists>p X Sel.
          s = SelectorExpr p X Sel \<and> flagged_at e q s x \<and>
          FuncName x = ''Get'' @ Name v (Ident_ptr Sel) @ ''()''"
    unfolding traced_names_def by blast
  then show "\<forall>x \<in> set (recorded v v'). \<exists>(q, s) \<in> occurrences parent0 root. \<exists>p X Sel.
          s = SelectorExpr p X Sel \<and> flagged_at e q s x \<and>
          FuncName x = ''Get'' @ Name v (Ident_ptr Sel) @ ''()''"
    by (simp add: recorded_def)
qed

theorem FuncName_is_getter_call_witness:
  "methods_are_identifiers ex_env \<and>
   (\<exists>v'. Apply_visitor ex_env None ex_nested (ex_visitor ex_nested_src) = Inr v' \<and>
         recorded (ex_visitor ex_nested_src) v' = [ex_child_violation] \<and>
         FuncName ex_child_violation = ''GetChild()'' \<and>
         (\<exists>(q, s) \<in> occurrences None ex_nested. \<exists>p X Sel.
             s = SelectorExpr p X Sel \<and> flagged_at ex_env q s ex_child_violation \<and>
             FuncName ex_child_violation
               = ''Get'' @ Name (ex_visitor ex_nested_src) (Ident_ptr Sel) @ ''()''))"
proof -
  from ex_nested_run obtain v' where
    run: "Apply_visitor ex_env None ex_nested (ex_visitor ex_nested_src) = Inr v'"
    and rec: "recorded (ex_visitor ex_nested_src) v' = [ex_child_violation]"
    by blast
  have "\<exists>(q, s) \<in> occurrences None ex_nested. \<exists>p X Sel.
             s = SelectorExpr p X Sel \<and> flagged_at ex_env q s ex_child_violation \<and>
             FuncName ex_child_violation
               = ''Get'' @ Name (ex_visitor ex_nested_src) (Ident_ptr Sel) @ ''()''"
    using FuncName_is_getter_call[where e = ex_env and ?parent0.0 = None and root = ex_nested
        and v = "ex_visitor ex_nested_src" and v' = v'] ex_methods_are_identifiers run rec
    by simp
  moreover have "FuncName ex_child_violation = ''GetChild()''"
    by (simp add: ex_child_violation_def)
  ultimately show ?thesis using ex_methods_are_identifiers run rec by blast
qed

subsection \<open>Checking a package without rewriting\<close>

lemma range_Syntax_traced:
  "\<not> WriteGetters c \<Longrightarrow> range_Syntax l c e files v = Inr v' \<Longrightarrow> traced e UNIV v v'"
proof (induction files arbitrary: v)
  case Nil
  then show ?case by (simp add: traced_refl)
next
  case (Cons astFile rest)
  show ?case
  proof (cases "shouldSkipFile l c astFile")
    case True
    then show ?thesis using Cons by simp
  next
    case False
    with Cons.prems obtain v1 where
      a: "Apply_visitor e None (File_node astFile) v = Inr v1"
      and b: "range_Syntax l c e rest v1 = Inr v'"
      by (auto split: sum.splits)
    have "traced e UNIV v v1"
      using Apply_visitor_traced[OF a] by (rule traced_mono[rotated]) simp
    moreover have "traced e UNIV v1 v'" using Cons.IH[OF Cons.prems(1) b] .
    ultimately show ?thesis by (rule traced_trans)
  qed
qed

lemma range_Syntax_traced_names:
  "methods_are_identifiers e \<Longrightarrow> \<not> WriteGetters c \<Longrightarrow> range_Syntax l c e files v = Inr v' \<Longrightarrow>
   traced_names e N0 UNIV v v'"
proof (induction files arbitrary: v)
  case Nil
  then show ?case by (simp add: traced_names_refl)
next
  case (Cons astFile rest)
  show ?case
  proof (cases "shouldSkipFile l c astFile")
    case True
    then show ?thesis using Cons by simp
  next
    case False
    with Cons.prems obtain v1 where
      a: "Apply_visitor e None (File_node astFile) v = Inr v1"
      and b: "range_Syntax l c e rest v1 = Inr v'"
      by (auto split: sum.splits)
    have "traced_names e N0 UNIV v v1"
      using Apply_visitor_traced_names[OF Cons.prems(1) a] by (rule traced_names_mono[rotated]) simp
    moreover have "traced_names e N0 UNIV v1 v'" using Cons.IH[OF Cons.prems(1,2) b] .
    ultimately show ?thesis by (rule traced_names_trans)
  qed
qed

text \<open>
  C7, as amended. With \<^verbatim>\<open>WriteGetters\<close> false, \<^verbatim>\<open>CheckPackage\<close> writes no file, and the
  only change it makes to the syntax tree is to rename selected identifiers of the
  violations it reports: an identifier whose name differs after the check carries the
  name stored with one of the reported violations, and with no violation reported every
  name is as before. When the method names are Go identifiers, the new name is
  \<^verbatim>\<open>Get\<close>, the old name and \<^verbatim>\<open>()\<close>.
\<close>

theorem CheckPackage_without_write:
  "WriteGetters c = False \<and> CheckPackage l c pkg w = Inr (r, w') \<longrightarrow>
     disk w' = disk w \<and>
     (\<forall>i. Name w' i \<noteq> Name w i \<longrightarrow> (\<exists>x \<in> set (UnusedGetterError r). FuncName x = Name w' i)) \<and>
     (UnusedGetterError r = [] \<longrightarrow> Name w' = Name w) \<and>
     (methods_are_identifiers \<lparr>lib = l, typesInfo = TypesInfo pkg, fset = Fset pkg\<rparr> \<longrightarrow>
        (\<forall>i. Name w' i = Name w i \<or> Name w' i = ''Get'' @ Name w i @ ''()''))"
proof (intro impI)
  assume a: "WriteGetters c = False \<and> CheckPackage l c pkg w = Inr (r, w')"
  define e where "e = \<lparr>lib = l, typesInfo = TypesInfo pkg, fset = Fset pkg\<rparr>"
  define v where "v = w\<lparr>lines := Some Map.empty, errors := []\<rparr>"
  from a have run: "range_Syntax l c e (Syntax pkg) v = Inr w'" and r: "r = \<lparr>UnusedGetterError = errors w'\<rparr>"
    by (auto simp: CheckPackage_def e_def v_def Let_def split: sum.splits)
  from a have nw: "\<not> WriteGetters c" by simp
  have "traced e UNIV v w'" using range_Syntax_traced[OF nw run] .
  then obtain new where t: "errors w' = errors v @ new" "disk w' = disk v"
    "\<forall>i. Name w' i \<noteq> Name v i \<longrightarrow> (\<exists>x \<in> set new. FuncName x = Name w' i)"
    unfolding traced_def by blast
  have new: "UnusedGetterError r = new" using t(1) r by (simp add: v_def)
  have 1: "disk w' = disk w" using t(2) by (simp add: v_def)
  have 2: "\<forall>i. Name w' i \<noteq> Name w i \<longrightarrow> (\<exists>x \<in> set (UnusedGetterError r). FuncName x = Name w' i)"
    using t(3) new by (simp add: v_def)
  have 3: "UnusedGetterError r = [] \<longrightarrow> Name w' = Name w"
    using 2 by (auto intro!: ext)
  have 4: "\<forall>i. Name w' i = Name w i \<or> Name w' i = ''Get'' @ Name w i @ ''()''"
    if ids: "methods_are_identifiers e"
  proof -
    have "traced_names e (Name w) UNIV v w'"
      using range_Syntax_traced_names[OF ids nw run] .
    moreover have "renamed_or_same (Name w) v" by (simp add: renamed_or_same_def v_def)
    ultimately have "renamed_or_same (Name w) w'" unfolding traced_names_def by blast
    then show ?thesis by (simp add: renamed_or_same_def)
  qed
  show "disk w' = disk w \<and>
     (\<forall>i. Name w' i \<noteq> Name w i \<longrightarrow> (\<exists>x \<in> set (UnusedGetterError r). FuncName x = Name w' i)) \<and>
     (UnusedGetterError r = [] \<longrightarrow> Name w' = Name w) \<and>
     (methods_are_identifiers \<lparr>lib = l, typesInfo = TypesInfo pkg, fset = Fset pkg\<rparr> \<longrightarrow>
        (\<forall>i. Name w' i = Name w i \<or> Name w' i = ''Get'' @ Name w i @ ''()''))"
    using 1 2 3 4 unfolding e_def by blast
qed

lemma ex_read_check:
  "\<exists>w'. CheckPackage ex_lib ex_Checker (ex_package ex_read) (ex_world ex_read_src)
           = Inr (\<lparr>UnusedGetterError = [ex_name_violation]\<rparr>, w') \<and>
         Name w' 33 = ''GetName()'' \<and> Name w' 32 = ''a''"
  by (simp add: CheckPackage_def shouldSkipFile_def ex_program_defs ex_world_defs visit_defs
        ex_name_violation_def ex_read_src_def)

theorem CheckPackage_without_write_witness:
  "WriteGetters ex_Checker = False \<and>
   (\<exists>w'. CheckPackage ex_lib ex_Checker (ex_package ex_read) (ex_world ex_read_src)
           = Inr (\<lparr>UnusedGetterError = [ex_name_violation]\<rparr>, w') \<and>
         disk w' = disk (ex_world ex_read_src) \<and>
         Name w' 33 = ''Get'' @ Name (ex_world ex_read_src) 33 @ ''()'' \<and>
         Name w' 33 = FuncName ex_name_violation \<and>
         Name w' 32 = Name (ex_world ex_read_src) 32)"
proof -
  from ex_read_check obtain w' where
    run: "CheckPackage ex_lib ex_Checker (ex_package ex_read) (ex_world ex_read_src)
           = Inr (\<lparr>UnusedGetterError = [ex_name_violation]\<rparr>, w')"
    and n: "Name w' 33 = ''GetName()''" "Name w' 32 = ''a''"
    by blast
  have nw: "WriteGetters ex_Checker = False" by (simp add: ex_Checker_def)
  have "disk w' = disk (ex_world ex_read_src)"
    using CheckPackage_without_write[of ex_Checker ex_lib "ex_package ex_read" "ex_world ex_read_src"
        "\<lparr>UnusedGetterError = [ex_name_violation]\<rparr>" w'] nw run
    by blast
  moreover have "Name (ex_world ex_read_src) 33 = ''Name''" "Name (ex_world ex_read_src) 32 = ''a''"
    "FuncName ex_name_violation = ''GetName()''"
    by (simp_all add: ex_world_def ex_names_def ex_name_violation_def)
  ultimately show ?thesis using nw run n by auto
qed

text \<open>
  C7 as stated fails: checking \<^verbatim>\<open>_ = a.Name\<close> with \<^verbatim>\<open>WriteGetters\<close> false leaves the
  selector's identifier renamed from \<^verbatim>\<open>Name\<close> to \<^verbatim>\<open>GetName()\<close>.
\<close>

theorem CheckPackage_renames_counterexample:
  "WriteGetters ex_Checker = False \<and>
   Name (ex_world ex_read_src) 33 = ''Name'' \<and>
   (\<exists>r w'. CheckPackage ex_lib ex_Checker (ex_package ex_read) (ex_world ex_read_src) = Inr (r, w') \<and>
           Name w' 33 = ''GetName()'' \<and> Name w' \<noteq> Name (ex_world ex_read_src))"
proof -
  from ex_read_check obtain w' where
    run: "CheckPackage ex_lib ex_Checker (ex_package ex_read) (ex_world ex_read_src)
           = Inr (\<lparr>UnusedGetterError = [ex_name_violation]\<rparr>, w')"
    and n: "Name w' 33 = ''GetName()''"
    by blast
  have o: "Name (ex_world ex_read_src) 33 = ''Name''" by (simp add: ex_world_def ex_names_def)
  have "Name w' \<noteq> Name (ex_world ex_read_src)"
  proof
    assume "Name w' = Name (ex_world ex_read_src)"
    then have "Name w' 33 = Name (ex_world ex_read_src) 33" by simp
    then show False using n o by simp
  qed
  moreover have "WriteGetters ex_Checker = False" by (simp add: ex_Checker_def)
  ultimately show ?thesis using run n o by blast
qed

subsection \<open>The violation recorder\<close>

text \<open>
  C8. When the visitor has a \<^verbatim>\<open>lines\<close> cache and the line number of the position is
  greater than the number of lines held (or read and then held) for its file,
  \<^verbatim>\<open>addErrorAtPosition\<close> returns normally and the violation it appends carries the
  placeholder \<^verbatim>\<open>??\<close>; that is so in particular for a file that cannot be read, for which
  the cache holds the empty list.
\<close>

theorem line_outside_cache_gives_placeholder:
  "(lines v = Some cache \<and> pos = FileSet_Position (fset e) position \<and>
    ls = (case cache (Filename pos) of
            Some held \<Rightarrow> held
          | None \<Rightarrow> readfile (lib e) (disk v) (Filename pos)) \<and>
    int (length ls) < Position.Line pos \<longrightarrow>
      addErrorAtPosition e position ident getterPos v =
        Inr (v\<lparr>lines := Some (cache(Filename pos \<mapsto> ls)),
               errors := errors v @
                 [\<lparr>Pos = pos, GetterPos = getterPos, Line = ''??'',
                   FuncName = Name v (Ident_ptr ident)\<rparr>]\<rparr>)) \<and>
   (lines u = Some held \<and> q = FileSet_Position (fset e) position \<and>
    held (Filename q) = None \<and> disk u (Filename q) = None \<and> 0 < Position.Line q \<longrightarrow>
      addErrorAtPosition e position ident getterPos u =
        Inr (u\<lparr>lines := Some (held(Filename q \<mapsto> [])),
               errors := errors u @
                 [\<lparr>Pos = q, GetterPos = getterPos, Line = ''??'',
                   FuncName = Name u (Ident_ptr ident)\<rparr>]\<rparr>))"
proof (intro conjI impI)
  assume a: "lines v = Some cache \<and> pos = FileSet_Position (fset e) position \<and>
    ls = (case cache (Filename pos) of
            Some held \<Rightarrow> held
          | None \<Rightarrow> readfile (lib e) (disk v) (Filename pos)) \<and>
    int (length ls) < Position.Line pos"
  then have l: "lines v = Some cache" and p: "FileSet_Position (fset e) position = pos"
    and ls: "(case cache (Filename pos) of
                Some held \<Rightarrow> held
              | None \<Rightarrow> readfile (lib e) (disk v) (Filename pos)) = ls"
    and lt: "int (length ls) < Position.Line pos"
    by blast+
  have "\<not> Position.Line pos - 1 < int (length ls)" using lt by simp
  then show "addErrorAtPosition e position ident getterPos v =
        Inr (v\<lparr>lines := Some (cache(Filename pos \<mapsto> ls)),
               errors := errors v @
                 [\<lparr>Pos = pos, GetterPos = getterPos, Line = ''??'',
                   FuncName = Name v (Ident_ptr ident)\<rparr>]\<rparr>)"
    unfolding addErrorAtPosition_def Let_def p l by (simp add: ls)
next
  assume b: "lines u = Some held \<and> q = FileSet_Position (fset e) position \<and>
    held (Filename q) = None \<and> disk u (Filename q) = None \<and> 0 < Position.Line q"
  then have l: "lines u = Some held" and p: "FileSet_Position (fset e) position = q"
    and h: "held (Filename q) = None" and d: "disk u (Filename q) = None"
    and lt: "0 < Position.Line q"
    by blast+
  have r: "readfile (lib e) (disk u) (Filename q) = []" using d by (simp add: readfile_def)
  show "addErrorAtPosition e position ident getterPos u =
        Inr (u\<lparr>lines := Some (held(Filename q \<mapsto> [])),
               errors := errors u @
                 [\<lparr>Pos = q, GetterPos = getterPos, Line = ''??'',
                   FuncName = Name u (Ident_ptr ident)\<rparr>]\<rparr>)"
    unfolding addErrorAtPosition_def Let_def p l using lt by (simp add: h r)
qed

theorem line_outside_cache_gives_placeholder_witness:
  "FileSet_Position (fset ex_env) 128 =
     \<lparr>Filename = ''main.go'', Offset = 127, Position.Line = 4, Column = 8\<rparr> \<and>
   lines ex_short = Some [''main.go'' \<mapsto> [''package src'', ''func main() {}'']] \<and>
   addErrorAtPosition ex_env 128 (Ident 33 128) ex_getter_pos ex_short =
     Inr (ex_short\<lparr>lines := Some [''main.go'' \<mapsto> [''package src'', ''func main() {}'']],
            errors := [\<lparr>Pos = \<lparr>Filename = ''main.go'', Offset = 127, Position.Line = 4, Column = 8\<rparr>,
                        GetterPos = ex_getter_pos, Line = ''??'', FuncName = ''Name''\<rparr>]\<rparr>) \<and>
   disk ex_unreadable ''main.go'' = None \<and>
   addErrorAtPosition ex_env 128 (Ident 33 128) ex_getter_pos ex_unreadable =
     Inr (ex_unreadable\<lparr>lines := Some [''main.go'' \<mapsto> []],
            errors := [\<lparr>Pos = \<lparr>Filename = ''main.go'', Offset = 127, Position.Line = 4, Column = 8\<rparr>,
                        GetterPos = ex_getter_pos, Line = ''??'', FuncName = ''Name''\<rparr>]\<rparr>)"
proof -
  have p: "FileSet_Position (fset ex_env) 128 =
     \<lparr>Filename = ''main.go'', Offset = 127, Position.Line = 4, Column = 8\<rparr>"
    by (simp add: FileSet_Position_def NoPos_def ex_env_def ex_fset_def)
  have 1: "addErrorAtPosition ex_env 128 (Ident 33 128) ex_getter_pos ex_short =
     Inr (ex_short\<lparr>lines := Some [''main.go'' \<mapsto> [''package src'', ''func main() {}'']],
            errors := [\<lparr>Pos = \<lparr>Filename = ''main.go'', Offset = 127, Position.Line = 4, Column = 8\<rparr>,
                        GetterPos = ex_getter_pos, Line = ''??'', FuncName = ''Name''\<rparr>]\<rparr>)"
    using line_outside_cache_gives_placeholder[where v = ex_short
        and cache = "[''main.go'' \<mapsto> [''package src'', ''func main() {}'']]"
        and pos = "\<lparr>Filename = ''main.go'', Offset = 127, Position.Line = 4, Column = 8\<rparr>"
        and e = ex_env and position = 128 and ls = "[''package src'', ''func main() {}'']"
        and ident = "Ident 33 128" and getterPos = ex_getter_pos] p
    by (simp add: ex_short_def ex_names_def)
  have 2: "addErrorAtPosition ex_env 128 (Ident 33 128) ex_getter_pos ex_unreadable =
     Inr (ex_unreadable\<lparr>lines := Some [''main.go'' \<mapsto> []],
            errors := [\<lparr>Pos = \<lparr>Filename = ''main.go'', Offset = 127, Position.Line = 4, Column = 8\<rparr>,
                        GetterPos = ex_getter_pos, Line = ''??'', FuncName = ''Name''\<rparr>]\<rparr>)"
    using line_outside_cache_gives_placeholder[where u = ex_unreadable and held = Map.empty
        and q = "\<lparr>Filename = ''main.go'', Offset = 127, Position.Line = 4, Column = 8\<rparr>"
        and e = ex_env and position = 128
        and ident = "Ident 33 128" and getterPos = ex_getter_pos] p
    by (simp add: ex_unreadable_def ex_names_def)
  show ?thesis using p 1 2 by (simp add: ex_short_def ex_unreadable_def)
qed

lemma invalid_line_panics:
  "lines v = Some cache \<Longrightarrow> Position.Line (FileSet_Position (fset e) position) \<le> 0 \<Longrightarrow>
   addErrorAtPosition e position ident getterPos v = Inl IndexOutOfRange"
  by (auto simp: addErrorAtPosition_def Let_def)

subsection \<open>Checking a set of paths\<close>

lemma enqueue_good:
  "\<forall>g \<in> set good. Errors g = [] \<Longrightarrow> enqueue (good @ rest) work = enqueue rest (work @ good)"
  by (induction good arbitrary: work) auto

text \<open>
  C9. When some loaded package carries errors, \<^verbatim>\<open>checkPaths\<close> returns the load-time
  error of the first such package: no result, no violations, and, whatever
  \<^verbatim>\<open>CheckPackage\<close> would do on any of the packages, nothing of it.
\<close>

theorem checkPaths_fails_fast:
  "(\<exists>pkg \<in> set pkgs. Errors pkg \<noteq> []) \<longrightarrow>
     (\<exists>good bad rest. pkgs = good @ bad # rest \<and> (\<forall>g \<in> set good. Errors g = []) \<and>
        Errors bad \<noteq> [] \<and>
        checkPaths sort_Sort l c (Inr pkgs) w = Inl (PackageErrors (ID bad) (Errors bad)))"
proof
  assume "\<exists>pkg \<in> set pkgs. Errors pkg \<noteq> []"
  then obtain good bad rest where s: "pkgs = good @ bad # rest" "Errors bad \<noteq> []"
    "\<forall>g \<in> set good. \<not> Errors g \<noteq> []"
    using split_list_first_prop[of pkgs "\<lambda>pkg. Errors pkg \<noteq> []"] by blast
  then have g: "\<forall>g \<in> set good. Errors g = []" by simp
  have "enqueue pkgs [] = Inl (PackageErrors (ID bad) (Errors bad))"
    using s(1,2) enqueue_good[OF g, of "bad # rest" "[]"] by simp
  then have "checkPaths sort_Sort l c (Inr pkgs) w = Inl (PackageErrors (ID bad) (Errors bad))"
    by (simp add: checkPaths_def)
  with s(1,2) g show "\<exists>good bad rest. pkgs = good @ bad # rest \<and> (\<forall>g \<in> set good. Errors g = []) \<and>
        Errors bad \<noteq> [] \<and>
        checkPaths sort_Sort l c (Inr pkgs) w = Inl (PackageErrors (ID bad) (Errors bad))"
    by blast
qed

lemma ex_paren_panics:
  "CheckPackage ex_lib ex_Checker (ex_package ex_paren) (ex_world ex_paren_src) = Inl NilMapAssignment"
  by (simp add: CheckPackage_def shouldSkipFile_def ex_program_defs ex_world_defs visit_defs)

theorem checkPaths_fails_fast_witness:
  "Errors ex_broken \<noteq> [] \<and> Errors (ex_package ex_paren) = [] \<and>
   CheckPackage ex_lib ex_Checker (ex_package ex_paren) (ex_world ex_paren_src) = Inl NilMapAssignment \<and>
   checkPaths insertionSort ex_lib ex_Checker (Inr [ex_package ex_paren, ex_broken]) (ex_world ex_paren_src)
     = Inl (PackageErrors ''broken'' [''main.go:4:6: undefined: q''])"
proof -
  have b: "Errors ex_broken \<noteq> []" "ID ex_broken = ''broken''"
    "Errors ex_broken = [''main.go:4:6: undefined: q'']" "Errors (ex_package ex_paren) = []"
    by (simp_all add: ex_broken_def ex_package_def)
  then have "\<exists>pkg \<in> set [ex_package ex_paren, ex_broken]. Errors pkg \<noteq> []" by simp
  with checkPaths_fails_fast[of "[ex_package ex_paren, ex_broken]" insertionSort ex_lib ex_Checker
      "ex_world ex_paren_src"]
  obtain good bad rest where s: "[ex_package ex_paren, ex_broken] = good @ bad # rest"
    "\<forall>g \<in> set good. Errors g = []" "Errors bad \<noteq> []"
    "checkPaths insertionSort ex_lib ex_Checker (Inr [ex_package ex_paren, ex_broken])
       (ex_world ex_paren_src) = Inl (PackageErrors (ID bad) (Errors bad))"
    by blast
  have "bad = ex_broken"
  proof (cases good)
    case Nil
    then show ?thesis using s(1,3) b(4) by simp
  next
    case (Cons g gs)
    then show ?thesis using s(1,2) b(1) by (cases gs) auto
  qed
  then show ?thesis using s(4) b ex_paren_panics by simp
qed

subsection \<open>The accessor lookup\<close>

lemma scanned_methods_Pointer: "scanned_methods (Pointer elem) = scanned_methods elem"
  by (simp add: scanned_methods_def)

lemma FindMethod_find:
  "FindMethod t methodName = find (\<lambda>m. Func_Name m = methodName) (scanned_methods t)"
  by (induction t methodName rule: FindMethod.induct)
     (simp_all add: scanned_methods_Pointer, simp_all add: scanned_methods_def)

text \<open>
  C5, as amended. \<^verbatim>\<open>FindMethod\<close> removes every level of pointer; if what remains is a
  named type, of whatever underlying type, it returns the first declared method whose
  name equals the given name, whatever its parameters, and none if there is no such
  method; for every other type it returns none. It agrees with the lookup the
  specification describes on a named struct type, or a pointer to one, whose methods of
  that name take no arguments, for a field name that is capitalised already.
\<close>

theorem FindMethod_scans_declared_methods:
  "FindMethod t methodName = find (\<lambda>m. Func_Name m = methodName) (scanned_methods t) \<and>
   (strip_pointers t = Named name underlying methods \<longrightarrow> scanned_methods t = methods) \<and>
   ((\<forall>name underlying methods. strip_pointers t \<noteq> Named name underlying methods) \<longrightarrow>
      FindMethod t methodName = None) \<and>
   ((t = Named name (Struct s) methods \<or> t = Pointer (Named name (Struct s) methods)) \<and>
    (\<forall>m \<in> set methods. Func_Name m = ''Get'' @ fieldName \<longrightarrow> Func_Params m = 0) \<and>
    capitalize fieldName = fieldName \<longrightarrow>
      FindMethod t (''Get'' @ fieldName) = FindAccessor_spec t fieldName)"
proof (intro conjI impI)
  show "FindMethod t methodName = find (\<lambda>m. Func_Name m = methodName) (scanned_methods t)"
    by (rule FindMethod_find)
  show "scanned_methods t = methods" if "strip_pointers t = Named name underlying methods"
    using that by (simp add: scanned_methods_def)
  show "FindMethod t methodName = None"
    if "\<forall>name underlying methods. strip_pointers t \<noteq> Named name underlying methods"
  proof -
    have "scanned_methods t = []"
      using that by (cases "strip_pointers t") (simp_all add: scanned_methods_def)
    then show ?thesis by (simp add: FindMethod_find)
  qed
  show "FindMethod t (''Get'' @ fieldName) = FindAccessor_spec t fieldName"
    if a: "(t = Named name (Struct s) methods \<or> t = Pointer (Named name (Struct s) methods)) \<and>
      (\<forall>m \<in> set methods. Func_Name m = ''Get'' @ fieldName \<longrightarrow> Func_Params m = 0) \<and>
      capitalize fieldName = fieldName"
  proof -
    have "find (\<lambda>m. Func_Name m = ''Get'' @ fieldName) methods =
          find (\<lambda>m. Func_Name m = ''Get'' @ fieldName \<and> Func_Params m = 0) methods"
      using a by (intro find_cong) auto
    then show ?thesis using a by (auto simp: FindAccessor_spec_def)
  qed
qed

theorem FindMethod_scans_declared_methods_witness:
  "capitalize ''Name'' = ''Name'' \<and>
   FindMethod (Pointer ex_Basic) ''GetName'' = Some (Func ''GetName'' 1101 0) \<and>
   FindMethod (Pointer ex_Basic) (''Get'' @ ''Name'') = FindAccessor_spec (Pointer ex_Basic) ''Name'' \<and>
   FindMethod (Pointer ex_Basic) ''GetAge'' = None \<and>
   FindMethod (Basic ''string'') ''GetName'' = None"
proof -
  have c: "capitalize ''Name'' = ''Name''" by (simp add: capitalize_def less_eq_char_def)
  have "FindMethod (Pointer ex_Basic) (''Get'' @ ''Name'') = FindAccessor_spec (Pointer ex_Basic) ''Name''"
    using FindMethod_scans_declared_methods[where t = "Pointer ex_Basic" and fieldName = "''Name''"
        and name = "''generated.Basic''"
        and s = "''struct{Name string; Address *string; Small *int8; Valid bool}''"
        and methods = "[Func ''GetName'' 1101 0, Func ''GetAddress'' 1201 0, Func ''GetSmall'' 1301 0,
                        Func ''GetValid'' 1501 0]"] c
    by (simp add: ex_Basic_def)
  then show ?thesis using c by (simp add: ex_Basic_def)
qed

lemma capitalize_Name: "capitalize ''Name'' = ''Name''"
  by (simp add: capitalize_def less_eq_char_def)

lemma capitalize_name: "capitalize ''name'' = ''Name''"
proof -
  have "char_of (78 :: nat) = CHR ''N''" by code_simp
  then show ?thesis by (simp add: capitalize_def less_eq_char_def)
qed

text \<open>
  C5 as stated fails: through two levels of pointer \<^verbatim>\<open>FindMethod\<close> still finds the getter;
  it returns a getter that takes arguments, and a getter of a named type that is not an
  aggregate; and for the field name \<^verbatim>\<open>name\<close> the traversal asks for \<^verbatim>\<open>Getname\<close>, which the
  type does not have, where the capitalised \<^verbatim>\<open>GetName\<close> would be found.
\<close>

theorem FindMethod_beyond_spec_counterexample:
  "FindMethod (Pointer (Pointer ex_Basic)) (''Get'' @ ''Name'') = Some (Func ''GetName'' 1101 0) \<and>
   FindAccessor_spec (Pointer (Pointer ex_Basic)) ''Name'' = None \<and>
   FindMethod (Named ''src.Config'' (Struct ''struct{Name string}'') [Func ''GetName'' 410 1])
     (''Get'' @ ''Name'') = Some (Func ''GetName'' 410 1) \<and>
   FindAccessor_spec (Named ''src.Config'' (Struct ''struct{Name string}'') [Func ''GetName'' 410 1])
     ''Name'' = None \<and>
   FindMethod (Named ''src.Celsius'' (Basic ''float64'') [Func ''GetName'' 420 0])
     (''Get'' @ ''Name'') = Some (Func ''GetName'' 420 0) \<and>
   FindAccessor_spec (Named ''src.Celsius'' (Basic ''float64'') [Func ''GetName'' 420 0])
     ''Name'' = None \<and>
   FindMethod ex_Basic (''Get'' @ ''name'') = None \<and>
   FindAccessor_spec ex_Basic ''name'' = Some (Func ''GetName'' 1101 0)"
  by (simp add: ex_Basic_def FindAccessor_spec_def capitalize_Name capitalize_name)

end
